theory Spec2Isabelle
  imports Main "HOL-Library.Sublist"
begin

section \<open>Strings and the POSIX path functions used by the upload pipeline\<close>

text \<open>
  Strings are byte strings. The source calls \<^verbatim>\<open>String.prototype.toLowerCase\<close>,
  \<^verbatim>\<open>includes\<close>, \<^verbatim>\<open>startsWith\<close> and the functions of Node's \<^verbatim>\<open>path\<close> module
  (POSIX flavour: the only separator is the slash). Those library functions are not part of
  the repository; they are written out here after their documented behaviour, on the
  segments of a path, so that the repository's own checks can be evaluated.
\<close>

definition lower_table :: "(char \<times> char) list" where
  "lower_table = zip ''ABCDEFGHIJKLMNOPQRSTUVWXYZ'' ''abcdefghijklmnopqrstuvwxyz''"

definition lower_char :: "char \<Rightarrow> char" where
  "lower_char c = (case map_of lower_table c of Some d \<Rightarrow> d | None \<Rightarrow> c)"

definition toLowerCase :: "string \<Rightarrow> string" where
  "toLowerCase s = map lower_char s"

definition str_includes :: "string \<Rightarrow> string \<Rightarrow> bool" where
  \<comment> \<open>\<^verbatim>\<open>s.includes(sub)\<close>\<close>
  "str_includes s sub = sublist sub s"

definition startsWith :: "string \<Rightarrow> string \<Rightarrow> bool" where
  \<comment> \<open>\<^verbatim>\<open>s.startsWith(p)\<close>\<close>
  "startsWith s p = prefix p s"

definition slash :: char where
  "slash = CHR ''/''"

fun split_path :: "string \<Rightarrow> string list" where
  \<comment> \<open>the segments between slashes, empty ones included\<close>
  "split_path [] = [[]]"
| "split_path (c # cs) =
     (if c = slash then [] # split_path cs
      else (case split_path cs of [] \<Rightarrow> [[c]] | s # ss \<Rightarrow> (c # s) # ss))"

fun join_segments :: "string list \<Rightarrow> string" where
  "join_segments [] = []"
| "join_segments [s] = s"
| "join_segments (s # t # ss) = s @ slash # join_segments (t # ss)"

fun norm_step :: "bool \<Rightarrow> string list \<Rightarrow> string \<Rightarrow> string list" where
  \<comment> \<open>One segment of \<^verbatim>\<open>normalizeString\<close>; the stack holds the kept segments, last one first.
      Empty and single-dot segments are dropped; a double dot removes the last kept
      segment unless there is none or it is itself a double dot, in which case it is kept
      when the path is relative (\<^verbatim>\<open>allowAboveRoot\<close>).\<close>
  "norm_step allowAboveRoot st seg =
     (if seg = [] \<or> seg = ''.'' then st
      else if seg = ''..'' then
        (case st of
           [] \<Rightarrow> if allowAboveRoot then [''..''] else []
         | s # rest \<Rightarrow>
             if s = ''..'' then (if allowAboveRoot then ''..'' # st else st) else rest)
      else seg # st)"

declare norm_step.simps [simp del]

definition normalizeString :: "string \<Rightarrow> bool \<Rightarrow> string" where
  "normalizeString path allowAboveRoot =
     join_segments (rev (foldl (norm_step allowAboveRoot) [] (split_path path)))"

definition path_isAbsolute :: "string \<Rightarrow> bool" where
  "path_isAbsolute path = (case path of [] \<Rightarrow> False | c # _ \<Rightarrow> c = slash)"

definition path_normalize :: "string \<Rightarrow> string" where
  "path_normalize path =
     (if path = [] then ''.''
      else
        let isAbsolute = path_isAbsolute path;
            trailingSeparator = (last path = slash);
            p = normalizeString path (\<not> isAbsolute)
        in if p = [] then (if isAbsolute then ''/'' else if trailingSeparator then ''./'' else ''.'')
           else (if isAbsolute then ''/'' else []) @ p @ (if trailingSeparator then ''/'' else []))"

definition path_join :: "string list \<Rightarrow> string" where
  \<comment> \<open>\<^verbatim>\<open>path.join(...args)\<close>: the non-empty arguments joined by slashes, then normalized\<close>
  "path_join args =
     (let parts = filter (\<lambda>a. a \<noteq> []) args
      in if parts = [] then ''.'' else path_normalize (join_segments parts))"

definition drop_trailing :: "(char \<Rightarrow> bool) \<Rightarrow> string \<Rightarrow> string" where
  \<comment> \<open>the string without its longest suffix of characters satisfying the test\<close>
  "drop_trailing P s = rev (dropWhile P (rev s))"

definition path_basename :: "string \<Rightarrow> string" where
  \<comment> \<open>the last component, trailing slashes ignored\<close>
  "path_basename path =
     rev (takeWhile (\<lambda>c. c \<noteq> slash) (rev (drop_trailing (\<lambda>c. c = slash) path)))"

definition path_extname :: "string \<Rightarrow> string" where
  \<comment> \<open>from the last dot of the last component to its end; empty when that component has no
      dot, starts with its only dot, or is the double dot\<close>
  "path_extname path =
     (let b = path_basename path;
          after = rev (takeWhile (\<lambda>c. c \<noteq> CHR ''.'') (rev b))
      in if CHR ''.'' \<notin> set b then []
         else if length after + 1 = length b then []
         else if b = ''..'' then []
         else CHR ''.'' # after)"

definition path_dirname :: "string \<Rightarrow> string" where
  "path_dirname path =
     (case path of
        [] \<Rightarrow> ''.''
      | c # cs \<Rightarrow>
          let hasRoot = (c = slash);
              upto = drop_trailing (\<lambda>x. x \<noteq> slash) (drop_trailing (\<lambda>x. x = slash) cs)
          in if upto = [] then (if hasRoot then ''/'' else ''.'')
             else if hasRoot \<and> length upto = 1 then ''//''
             else take (length upto) path)"

section \<open>Uploaded files and errors\<close>

text \<open>
  The uploaded file object (as handed over by the multipart middleware) and the errors the
  pipeline raises. Each constructor stands for one \<^verbatim>\<open>throw new Error(...)\<close> or
  \<^verbatim>\<open>reject(new Error(...))\<close> of the source; its arguments are the values interpolated into
  the message.
\<close>

record upload_file =
  originalname :: string
  fsize :: int
  fpath :: string

datatype upload_error =
    NoFileProvided                         \<comment> \<open>\<^verbatim>\<open>No file provided\<close>\<close>
  | InvalidFileType "string list" string   \<comment> \<open>\<^verbatim>\<open>Invalid file type. Expected .., got ..\<close>\<close>
  | FileTooLarge string int                \<comment> \<open>\<^verbatim>\<open>HTML|ZIP file too large. Maximum size is ..MB\<close>\<close>
  | InvalidUploadTypeMustBe                \<comment> \<open>\<^verbatim>\<open>Invalid upload type. Must be "html" or "zip"\<close>\<close>
  | InvalidUploadType                      \<comment> \<open>\<^verbatim>\<open>Invalid upload type\<close>\<close>
  | SanitizeFailed                         \<comment> \<open>\<^verbatim>\<open>Failed to sanitize HTML content\<close>\<close>
  | ZipOpenFailed string                   \<comment> \<open>\<^verbatim>\<open>Failed to open ZIP file: ..\<close>\<close>
  | InvalidZipPath string                  \<comment> \<open>\<^verbatim>\<open>Invalid file path in ZIP: ..\<close>\<close>
  | UnsupportedZipContent string string    \<comment> \<open>\<^verbatim>\<open>Unsupported file type in ZIP: .. (..)\<close>\<close>
  | ZipReadFailed string string            \<comment> \<open>\<^verbatim>\<open>Failed to read ..: ..\<close>\<close>
  | ZipExtractFailed string string         \<comment> \<open>\<^verbatim>\<open>Failed to extract ..: ..\<close>\<close>
  | ZipWriteFailed string string           \<comment> \<open>\<^verbatim>\<open>Failed to write ..: ..\<close>\<close>
  | MissingIndexHtml                       \<comment> \<open>\<^verbatim>\<open>ZIP file must contain an index.html file\<close>\<close>
  | ZipProcessingError string              \<comment> \<open>\<^verbatim>\<open>ZIP processing error: ..\<close>\<close>
  | PathTraversalDetected                  \<comment> \<open>\<^verbatim>\<open>Invalid file path: path traversal detected\<close>\<close>
  | NoSuchFile string                      \<comment> \<open>ENOENT raised by a read of a missing path\<close>

section \<open>The file system\<close>

text \<open>
  The storage state: the regular files with their bytes, the directories, and a log of the
  paths handed to a write (\<^verbatim>\<open>fs.writeFile\<close>, \<^verbatim>\<open>fs.copyFile\<close>, a write stream), in
  order. Reading a path that holds no file fails; the other operations succeed. A
  recursive \<^verbatim>\<open>mkdir\<close> records the directory it is asked for.
\<close>

record fs_state =
  files :: "(string \<times> string) list"
  dirs :: "string list"
  written :: "string list"

definition fs_read :: "fs_state \<Rightarrow> string \<Rightarrow> string option" where
  "fs_read fs p = map_of (files fs) p"

definition fs_exists :: "fs_state \<Rightarrow> string \<Rightarrow> bool" where
  \<comment> \<open>\<^verbatim>\<open>fs.access(p)\<close> succeeds\<close>
  "fs_exists fs p = (case fs_read fs p of Some _ \<Rightarrow> True | None \<Rightarrow> p \<in> set (dirs fs))"

definition fs_mkdir :: "fs_state \<Rightarrow> string \<Rightarrow> fs_state" where
  \<comment> \<open>\<^verbatim>\<open>fs.mkdir(p, { recursive: true })\<close>\<close>
  "fs_mkdir fs p = fs\<lparr>dirs := List.insert p (dirs fs)\<rparr>"

definition fs_write :: "fs_state \<Rightarrow> string \<Rightarrow> string \<Rightarrow> fs_state" where
  "fs_write fs p content =
     fs\<lparr>files := (p, content) # filter (\<lambda>entry. fst entry \<noteq> p) (files fs),
        written := written fs @ [p]\<rparr>"

definition path_under :: "string \<Rightarrow> string \<Rightarrow> bool" where
  \<comment> \<open>the path is the directory itself or lies below it\<close>
  "path_under dir p = (p = dir \<or> prefix (dir @ ''/'') p)"

definition fs_rm_rf :: "fs_state \<Rightarrow> string \<Rightarrow> fs_state" where
  \<comment> \<open>\<^verbatim>\<open>fs.rm(p, { recursive: true, force: true })\<close>\<close>
  "fs_rm_rf fs p =
     fs\<lparr>files := filter (\<lambda>entry. \<not> path_under p (fst entry)) (files fs),
        dirs := filter (\<lambda>d. \<not> path_under p d) (dirs fs)\<rparr>"

definition fs_unlink :: "fs_state \<Rightarrow> string \<Rightarrow> fs_state option" where
  \<comment> \<open>\<^verbatim>\<open>fs.unlink(p)\<close>; fails when there is no such file\<close>
  "fs_unlink fs p =
     (case fs_read fs p of
        None \<Rightarrow> None
      | Some _ \<Rightarrow> Some (fs\<lparr>files := filter (\<lambda>entry. fst entry \<noteq> p) (files fs)\<rparr>))"

section \<open>The storage manager (storage.js)\<close>

record storage_manager =
  sitesDir :: string
  tmpDir :: string
  staticDir :: string

definition StorageManager :: "string \<Rightarrow> storage_manager" where
  \<comment> \<open>the constructor; the argument is \<^verbatim>\<open>__dirname\<close>\<close>
  "StorageManager dirname =
     \<lparr>sitesDir = path_join [dirname, ''sites''],
      tmpDir = path_join [dirname, ''tmp''],
      staticDir = path_join [dirname, ''static'']\<rparr>"

definition ensureDir :: "fs_state \<Rightarrow> string \<Rightarrow> fs_state" where
  "ensureDir fs dirPath = (if fs_exists fs dirPath then fs else fs_mkdir fs dirPath)"

definition getSiteDir :: "storage_manager \<Rightarrow> string \<Rightarrow> string \<Rightarrow> string" where
  "getSiteDir storage userId siteId = path_join [sitesDir storage, userId, siteId]"

definition createSiteDir :: "storage_manager \<Rightarrow> string \<Rightarrow> string \<Rightarrow> fs_state \<Rightarrow> string \<times> fs_state" where
  "createSiteDir storage userId siteId fs =
     (let siteDir = getSiteDir storage userId siteId in (siteDir, ensureDir fs siteDir))"

definition writeFile ::
  "storage_manager \<Rightarrow> string \<Rightarrow> string \<Rightarrow> string \<Rightarrow> string \<Rightarrow> fs_state \<Rightarrow> (upload_error + string) \<times> fs_state" where
  "writeFile storage userId siteId fileName content fs =
     (let (siteDir, fs1) = createSiteDir storage userId siteId fs;
          filePath = path_join [siteDir, fileName];
          normalizedPath = path_normalize filePath
      in if \<not> startsWith normalizedPath siteDir then (Inl PathTraversalDetected, fs1)
         else (Inr filePath, fs_write fs1 filePath content))"

definition getTempFilePath :: "storage_manager \<Rightarrow> string \<Rightarrow> string" where
  "getTempFilePath storage filename = path_join [tmpDir storage, filename]"

definition cleanupTempFile :: "fs_state \<Rightarrow> string \<Rightarrow> fs_state" where
  \<comment> \<open>a failing unlink is logged and swallowed\<close>
  "cleanupTempFile fs filePath = (case fs_unlink fs filePath of None \<Rightarrow> fs | Some fs' \<Rightarrow> fs')"

section \<open>The upload processor\<close>

text \<open>
  What the processor takes from outside the repository: the directory of the module, the two
  size variables of the process environment as \<^verbatim>\<open>parseInt\<close> reads them when the module is
  loaded (\<open>None\<close> for NaN), the clock, the
  HTML sanitizing library applied with \<^verbatim>\<open>SANITIZE_OPTIONS\<close> (\<open>None\<close> when it throws), and
  the ZIP library. An opened archive reads its entries one at a time and then either ends
  or reports an error; the stream of one entry may fail to open, fail while being read (after
  some bytes), or fail on the writing side. The name of an entry of an archive is the name
  as it is stored.
\<close>

datatype stream_fault =
    OpenStreamError string
  | ReadStreamError nat string
  | WriteStreamError string

record zip_entry =
  fileName :: string
  content :: string
  fault :: "stream_fault option"

record zip_file =
  entries :: "zip_entry list"
  zip_error :: "string option"

record environment =
  env_dirname :: string
  MAX_HTML_BYTES :: "int option"
  MAX_ZIP_BYTES :: "int option"
  env_now :: nat
  sanitize_lib :: "string \<Rightarrow> string option"
  yauzl_open :: "string \<Rightarrow> string + zip_file"

definition storage :: "environment \<Rightarrow> storage_manager" where
  "storage env = StorageManager (env_dirname env)"

subsection \<open>File validation\<close>

definition max_from_env :: "int option \<Rightarrow> int \<Rightarrow> int" where
  \<comment> \<open>\<^verbatim>\<open>parseInt(process.env.X) || dflt\<close>: NaN (unset or unparsable) and 0 are falsy\<close>
  "max_from_env parsed dflt = (case parsed of None \<Rightarrow> dflt | Some n \<Rightarrow> if n = 0 then dflt else n)"

definition MAX_HTML_SIZE :: "environment \<Rightarrow> int" where
  "MAX_HTML_SIZE env = max_from_env (MAX_HTML_BYTES env) 5000000"

definition MAX_ZIP_SIZE :: "environment \<Rightarrow> int" where
  "MAX_ZIP_SIZE env = max_from_env (MAX_ZIP_BYTES env) 25000000"

definition ALLOWED_HTML_EXTENSIONS :: "string list" where
  "ALLOWED_HTML_EXTENSIONS = [''.html'', ''.htm'']"

definition ALLOWED_ZIP_EXTENSIONS :: "string list" where
  "ALLOWED_ZIP_EXTENSIONS = [''.zip'']"

definition ALLOWED_ZIP_CONTENT :: "string list" where
  "ALLOWED_ZIP_CONTENT =
     [''.html'', ''.htm'', ''.css'', ''.js'', ''.json'',
      ''.png'', ''.jpg'', ''.jpeg'', ''.gif'', ''.svg'', ''.webp'',
      ''.woff'', ''.woff2'', ''.ttf'', ''.otf'',
      ''.txt'', ''.md'']"

definition round_mb :: "int \<Rightarrow> int" where
  \<comment> \<open>\<^verbatim>\<open>Math.round(n / 1024 / 1024)\<close>, halves rounded up\<close>
  "round_mb n = (2 * n + 1048576) div 2097152"

definition validateFile :: "environment \<Rightarrow> upload_file option \<Rightarrow> string \<Rightarrow> upload_error + bool" where
  "validateFile env file upload_type =
     (case file of
        None \<Rightarrow> Inl NoFileProvided
      | Some f \<Rightarrow>
          if originalname f = [] then Inl NoFileProvided
          else
            let ext = toLowerCase (path_extname (originalname f))
            in if upload_type = ''html'' then
                 (if ext \<notin> set ALLOWED_HTML_EXTENSIONS then
                    Inl (InvalidFileType ALLOWED_HTML_EXTENSIONS ext)
                  else if fsize f > MAX_HTML_SIZE env then
                    Inl (FileTooLarge ''HTML'' (round_mb (MAX_HTML_SIZE env)))
                  else Inr True)
               else if upload_type = ''zip'' then
                 (if ext \<notin> set ALLOWED_ZIP_EXTENSIONS then
                    Inl (InvalidFileType ALLOWED_ZIP_EXTENSIONS ext)
                  else if fsize f > MAX_ZIP_SIZE env then
                    Inl (FileTooLarge ''ZIP'' (round_mb (MAX_ZIP_SIZE env)))
                  else Inr True)
               else Inl InvalidUploadTypeMustBe)"

function show_nat :: "nat \<Rightarrow> string" where
  \<comment> \<open>a number as interpolated into a template literal\<close>
  "show_nat n =
     (if n < 10 then [''0123456789'' ! n] else show_nat (n div 10) @ [''0123456789'' ! (n mod 10)])"
  by pat_completeness auto
termination
  by (relation "measure id") auto

definition sanitizeHtml :: "environment \<Rightarrow> string \<Rightarrow> upload_error + string" where
  "sanitizeHtml env htmlContent =
     (case sanitize_lib env htmlContent of None \<Rightarrow> Inl SanitizeFailed | Some clean \<Rightarrow> Inr clean)"

record deployment_summary =
  summary_type :: string
  summary_files :: "string list"
  summary_size :: nat
  summary_hasIndexHtml :: "bool option"

definition processHtmlUpload ::
  "environment \<Rightarrow> upload_file \<Rightarrow> string \<Rightarrow> string \<Rightarrow> fs_state \<Rightarrow> (upload_error + deployment_summary) \<times> fs_state" where
  "processHtmlUpload env file userId siteId fs =
     (case fs_read fs (fpath file) of
        None \<Rightarrow> (Inl (NoSuchFile (fpath file)), fs)
      | Some htmlContent \<Rightarrow>
          (case sanitizeHtml env htmlContent of
             Inl e \<Rightarrow> (Inl e, fs)
           | Inr sanitizedHtml \<Rightarrow>
               (case writeFile (storage env) userId siteId ''index.html'' sanitizedHtml fs of
                  (Inl e, fs1) \<Rightarrow> (Inl e, fs1)
                | (Inr _, fs1) \<Rightarrow>
                    (Inr \<lparr>summary_type = ''html'', summary_files = [''index.html''],
                          summary_size = length sanitizedHtml, summary_hasIndexHtml = None\<rparr>,
                     fs1))))"

subsection \<open>ZIP extraction\<close>

record extraction_result =
  result_files :: "string list"
  result_hasIndexHtml :: bool

definition is_directory_entry :: "zip_entry \<Rightarrow> bool" where
  \<comment> \<open>the name ends in a slash\<close>
  "is_directory_entry e = (fileName e \<noteq> [] \<and> last (fileName e) = slash)"

definition unsafe_path :: "string \<Rightarrow> bool" where
  \<comment> \<open>the path traversal test of \<^verbatim>\<open>extractZip\<close>\<close>
  "unsafe_path name =
     (let normalizedPath = path_normalize name
      in str_includes normalizedPath ''..'' \<or> path_isAbsolute normalizedPath)"

definition entry_ext :: "zip_entry \<Rightarrow> string" where
  "entry_ext e = toLowerCase (path_extname (fileName e))"

definition is_index_html :: "string \<Rightarrow> bool" where
  "is_index_html name = (toLowerCase (path_basename name) = ''index.html'')"

text \<open>
  The archive is opened with \<^verbatim>\<open>{ lazyEntries: true }\<close> and nothing else, so the ZIP library
  decodes and checks the name of every entry before it hands the entry to the \<^verbatim>\<open>entry\<close>
  handler, and reports an error on the archive instead when the name fails the check. The
  library is not part of the repository; the two steps are written after its reading of an
  entry. With these options it first replaces every backslash of the stored name by a slash.
  Its \<^verbatim>\<open>validateFileName\<close> then refuses a backslash, a drive letter or a leading slash, and a
  double dot among the pieces of \<^verbatim>\<open>fileName.split("/")\<close>, with the message given here.
\<close>

definition backslash :: char where
  "backslash = CHR 0x5C"

definition decodeFileName :: "string \<Rightarrow> string" where
  "decodeFileName stored = map (\<lambda>c. if c = backslash then slash else c) stored"

definition decoded_entry :: "zip_entry \<Rightarrow> zip_entry" where
  \<comment> \<open>the entry as the library holds it when it checks the name and emits the entry\<close>
  "decoded_entry e = e\<lparr>fileName := decodeFileName (fileName e)\<rparr>"

definition is_letter :: "char \<Rightarrow> bool" where
  "is_letter c = (c \<in> set ''ABCDEFGHIJKLMNOPQRSTUVWXYZabcdefghijklmnopqrstuvwxyz'')"

definition has_drive_prefix :: "string \<Rightarrow> bool" where
  \<comment> \<open>the name begins with a letter and a colon\<close>
  "has_drive_prefix name = (case name of c # d # _ \<Rightarrow> is_letter c \<and> d = CHR '':'' | _ \<Rightarrow> False)"

definition validateFileName :: "string \<Rightarrow> string option" where
  "validateFileName name =
     (if backslash \<in> set name then Some (''invalid characters in fileName: '' @ name)
      else if has_drive_prefix name \<or> path_isAbsolute name then Some (''absolute path: '' @ name)
      else if ''..'' \<in> set (split_path name) then Some (''invalid relative path: '' @ name)
      else None)"

fun readEntries ::
  "string \<Rightarrow> zip_entry list \<Rightarrow> string option \<Rightarrow> string list \<Rightarrow> bool \<Rightarrow> fs_state
     \<Rightarrow> (upload_error + extraction_result) \<times> fs_state" where
  "readEntries extractDir [] zerr extractedFiles hasIndexHtml fs =
     (case zerr of
        Some msg \<Rightarrow> (Inl (ZipProcessingError msg), fs)
      | None \<Rightarrow>
          if \<not> hasIndexHtml then (Inl MissingIndexHtml, fs)
          else (Inr \<lparr>result_files = extractedFiles, result_hasIndexHtml = hasIndexHtml\<rparr>, fs))"
| "readEntries extractDir (entry # rest) zerr extractedFiles hasIndexHtml fs =
     (case validateFileName (fileName entry) of
        Some msg \<Rightarrow> (Inl (ZipProcessingError msg), fs)
      | None \<Rightarrow>
          if is_directory_entry entry then readEntries extractDir rest zerr extractedFiles hasIndexHtml fs
          else if unsafe_path (fileName entry) then (Inl (InvalidZipPath (fileName entry)), fs)
          else if entry_ext entry \<notin> set ALLOWED_ZIP_CONTENT then
            (Inl (UnsupportedZipContent (fileName entry) (entry_ext entry)), fs)
          else
            let hasIndexHtml' = (hasIndexHtml \<or> is_index_html (fileName entry));
                outputPath = path_join [extractDir, fileName entry];
                fs1 = fs_mkdir fs (path_dirname outputPath)
            in case fault entry of
                 Some (OpenStreamError msg) \<Rightarrow> (Inl (ZipReadFailed (fileName entry) msg), fs)
               | Some (ReadStreamError n msg) \<Rightarrow>
                   (Inl (ZipExtractFailed (fileName entry) msg),
                    fs_write fs1 outputPath (take n (content entry)))
               | Some (WriteStreamError msg) \<Rightarrow> (Inl (ZipWriteFailed (fileName entry) msg), fs1)
               | None \<Rightarrow>
                   readEntries extractDir rest zerr (extractedFiles @ [fileName entry]) hasIndexHtml'
                     (fs_write fs1 outputPath (content entry)))"

definition extractZip ::
  "environment \<Rightarrow> string \<Rightarrow> string \<Rightarrow> fs_state \<Rightarrow> (upload_error + extraction_result) \<times> fs_state" where
  "extractZip env zipPath extractDir fs =
     (case yauzl_open env zipPath of
        Inl msg \<Rightarrow> (Inl (ZipOpenFailed msg), fs)
      | Inr zipfile \<Rightarrow>
          readEntries extractDir (map decoded_entry (entries zipfile)) (zip_error zipfile) [] False fs)"

subsection \<open>Deployment of the extracted files\<close>

definition is_html_name :: "string \<Rightarrow> bool" where
  "is_html_name name =
     (toLowerCase (path_extname name) = ''.html'' \<or> toLowerCase (path_extname name) = ''.htm'')"

fun deployFiles ::
  "environment \<Rightarrow> string \<Rightarrow> string \<Rightarrow> string list \<Rightarrow> string list \<Rightarrow> nat \<Rightarrow> fs_state
     \<Rightarrow> (upload_error + string list \<times> nat) \<times> fs_state" where
  \<comment> \<open>the loop over \<^verbatim>\<open>extractResult.files\<close> in \<^verbatim>\<open>processZipUpload\<close>; \<^verbatim>\<open>fs.stat\<close>,
      \<^verbatim>\<open>fs.readFile\<close> and \<^verbatim>\<open>fs.copyFile\<close> all read the staged file, whose size is the
      number of its bytes\<close>
  "deployFiles env tempDir siteDir [] processedFiles totalSize fs =
     (Inr (processedFiles, totalSize), fs)"
| "deployFiles env tempDir siteDir (name # rest) processedFiles totalSize fs =
     (let filePath = path_join [tempDir, name]
      in case fs_read fs filePath of
           None \<Rightarrow> (Inl (NoSuchFile filePath), fs)
         | Some staged \<Rightarrow>
             let totalSize' = totalSize + length staged;
                 destPath = path_join [siteDir, name];
                 fs1 = fs_mkdir fs (path_dirname destPath)
             in if is_html_name name then
                  (case sanitizeHtml env staged of
                     Inl e \<Rightarrow> (Inl e, fs)
                   | Inr sanitizedHtml \<Rightarrow>
                       deployFiles env tempDir siteDir rest (processedFiles @ [name]) totalSize'
                         (fs_write fs1 destPath sanitizedHtml))
                else
                  deployFiles env tempDir siteDir rest (processedFiles @ [name]) totalSize'
                    (fs_write fs1 destPath staged))"

definition zipUploadBody ::
  "environment \<Rightarrow> upload_file \<Rightarrow> string \<Rightarrow> string \<Rightarrow> string \<Rightarrow> fs_state
     \<Rightarrow> (upload_error + deployment_summary) \<times> fs_state" where
  \<comment> \<open>the \<^verbatim>\<open>try\<close> block of \<^verbatim>\<open>processZipUpload\<close>\<close>
  "zipUploadBody env file userId siteId tempDir fs0 =
     (case extractZip env (fpath file) tempDir fs0 of
        (Inl e, fs1) \<Rightarrow> (Inl e, fs1)
      | (Inr extractResult, fs1) \<Rightarrow>
          (case createSiteDir (storage env) userId siteId fs1 of
             (siteDir, fs2) \<Rightarrow>
               (case deployFiles env tempDir siteDir (result_files extractResult) [] 0 fs2 of
                  (Inl e, fs3) \<Rightarrow> (Inl e, fs3)
                | (Inr processed, fs3) \<Rightarrow>
                    (Inr \<lparr>summary_type = ''zip'', summary_files = fst processed,
                          summary_size = snd processed,
                          summary_hasIndexHtml = Some (result_hasIndexHtml extractResult)\<rparr>,
                     fs3))))"

definition stagingDir :: "environment \<Rightarrow> string \<Rightarrow> string" where
  \<comment> \<open>the temporary extraction directory of one upload\<close>
  "stagingDir env siteId =
     getTempFilePath (storage env) (''extract_'' @ siteId @ ''_'' @ show_nat (env_now env))"

definition processZipUpload ::
  "environment \<Rightarrow> upload_file \<Rightarrow> string \<Rightarrow> string \<Rightarrow> fs_state \<Rightarrow> (upload_error + deployment_summary) \<times> fs_state" where
  \<comment> \<open>the \<^verbatim>\<open>finally\<close> block removes the extraction directory on every exit of the body\<close>
  "processZipUpload env file userId siteId fs =
     (let tempDir = stagingDir env siteId;
          fs0 = fs_mkdir fs tempDir;
          attempt = zipUploadBody env file userId siteId tempDir fs0
      in (fst attempt, fs_rm_rf (snd attempt) tempDir))"

subsection \<open>The entry point\<close>

definition processUpload ::
  "environment \<Rightarrow> upload_file option \<Rightarrow> string \<Rightarrow> string \<Rightarrow> string \<Rightarrow> fs_state
     \<Rightarrow> (upload_error + deployment_summary) \<times> fs_state" where
  \<comment> \<open>validation runs before the \<^verbatim>\<open>try\<close>; the \<^verbatim>\<open>finally\<close> block removes the uploaded file\<close>
  "processUpload env file upload_type userId siteId fs =
     (case validateFile env file upload_type of
        Inl e \<Rightarrow> (Inl e, fs)
      | Inr _ \<Rightarrow>
          (case file of
             None \<Rightarrow> (Inl NoFileProvided, fs)
           | Some f \<Rightarrow>
               let attempt =
                     (if upload_type = ''html'' then processHtmlUpload env f userId siteId fs
                      else if upload_type = ''zip'' then processZipUpload env f userId siteId fs
                      else (Inl InvalidUploadType, fs))
               in (fst attempt, cleanupTempFile (snd attempt) (fpath f))))"

section \<open>Notions used in the statements\<close>

text \<open>
  A sample installation: the module lives in \<^verbatim>\<open>/app\<close>, the size variables are unset, the
  clock reads 7, and one uploaded file waits in the temporary directory. The sanitizing
  library and the archive behind the uploaded file are left open.
\<close>

definition demo_env :: "(string \<Rightarrow> string option) \<Rightarrow> zip_file \<Rightarrow> environment" where
  "demo_env lib zipfile =
     \<lparr>env_dirname = ''/app'', MAX_HTML_BYTES = None, MAX_ZIP_BYTES = None, env_now = 7,
      sanitize_lib = lib, yauzl_open = (\<lambda>zipPath. Inr zipfile)\<rparr>"

definition demo_fs :: fs_state where
  "demo_fs = \<lparr>files = [(''/app/tmp/up1'', ''raw upload'')], dirs = [''/app/tmp''], written = []\<rparr>"

definition delivered :: "zip_file \<Rightarrow> zip_entry list" where
  \<comment> \<open>the entries of an archive, in order, with their names as the library decodes them\<close>
  "delivered z = map decoded_entry (entries z)"

definition no_entries :: zip_file where
  "no_entries = \<lparr>entries = [], zip_error = None\<rparr>"


text \<open>
  What \<^verbatim>\<open>extractZip\<close> decides about one entry on its own: \<open>None\<close> when the entry is
  consumed (the library accepts its name, and then a directory entry is skipped, a file
  entry passes both checks and its stream ends), otherwise the error that rejects the
  archive.
\<close>

definition entry_verdict :: "zip_entry \<Rightarrow> upload_error option" where
  "entry_verdict e =
     (case validateFileName (fileName e) of
        Some msg \<Rightarrow> Some (ZipProcessingError msg)
      | None \<Rightarrow>
          if is_directory_entry e then None
          else if unsafe_path (fileName e) then Some (InvalidZipPath (fileName e))
          else if entry_ext e \<notin> set ALLOWED_ZIP_CONTENT then
            Some (UnsupportedZipContent (fileName e) (entry_ext e))
          else (case fault e of
                  None \<Rightarrow> None
                | Some (OpenStreamError msg) \<Rightarrow> Some (ZipReadFailed (fileName e) msg)
                | Some (ReadStreamError n msg) \<Rightarrow> Some (ZipExtractFailed (fileName e) msg)
                | Some (WriteStreamError msg) \<Rightarrow> Some (ZipWriteFailed (fileName e) msg)))"

definition accepted_entry :: "zip_entry \<Rightarrow> bool" where
  "accepted_entry e = (entry_verdict e = None)"

definition rejected_entry :: "zip_entry \<Rightarrow> bool" where
  "rejected_entry e = (\<not> accepted_entry e)"

definition file_entry :: "zip_entry \<Rightarrow> bool" where
  "file_entry e = (\<not> is_directory_entry e)"

definition index_entry :: "zip_entry \<Rightarrow> bool" where
  \<comment> \<open>a file entry whose base name is \<^verbatim>\<open>index.html\<close>, whatever the case of its letters\<close>
  "index_entry e = (\<not> is_directory_entry e \<and> is_index_html (fileName e))"

definition has_traversal_segment :: "string \<Rightarrow> bool" where
  \<comment> \<open>one of the segments of the path is the double dot\<close>
  "has_traversal_segment p = (''..'' \<in> set (split_path p))"

definition stage_entry :: "string \<Rightarrow> zip_entry \<Rightarrow> fs_state \<Rightarrow> fs_state" where
  \<comment> \<open>the storage effect of streaming one entry into the extraction directory\<close>
  "stage_entry dir e fs =
     fs_write (fs_mkdir fs (path_dirname (path_join [dir, fileName e])))
       (path_join [dir, fileName e]) (content e)"

definition plain_entry :: "string \<Rightarrow> string \<Rightarrow> zip_entry" where
  \<comment> \<open>an entry whose stream ends without a fault\<close>
  "plain_entry name bytes = \<lparr>fileName = name, content = bytes, fault = None\<rparr>"

definition archive :: "zip_entry list \<Rightarrow> zip_file" where
  \<comment> \<open>an archive that stores the entries and has no error of its own\<close>
  "archive es = \<lparr>entries = es, zip_error = None\<rparr>"

text \<open>
  A path lies within a directory when the directory's segments begin the path's segments and
  no segment of the path is the double dot. Segments are the non-empty pieces between
  slashes.
\<close>

definition path_segments :: "string \<Rightarrow> string list" where
  "path_segments p = filter (\<lambda>s. s \<noteq> []) (split_path p)"

definition within_dir :: "string \<Rightarrow> string \<Rightarrow> bool" where
  "within_dir root p = (prefix (path_segments root) (path_segments p) \<and> ''..'' \<notin> set (path_segments p))"

definition plain_segment :: "string \<Rightarrow> bool" where
  \<comment> \<open>a segment that normalization keeps, other than the double dot\<close>
  "plain_segment s = (s \<noteq> [] \<and> s \<noteq> ''.'' \<and> s \<noteq> ''..'' \<and> slash \<notin> set s)"

definition kept_segment :: "string \<Rightarrow> bool" where
  \<comment> \<open>a segment that normalization keeps\<close>
  "kept_segment s = (s \<noteq> [] \<and> s \<noteq> ''.'' \<and> slash \<notin> set s)"

definition safe_name :: "string \<Rightarrow> bool" where
  \<comment> \<open>a name that passes the path check of the extractor\<close>
  "safe_name name = (\<not> unsafe_path name)"

text \<open>Sample archives and the places of the sample installation.\<close>

definition demo_zip_path :: string where
  "demo_zip_path = ''/app/tmp/up1''"

definition demo_staging :: string where
  "demo_staging = ''/app/tmp/extract_s1_7''"

definition demo_upload :: "string \<Rightarrow> upload_file" where
  "demo_upload name = \<lparr>originalname = name, fsize = 10, fpath = demo_zip_path\<rparr>"

definition index_page :: zip_entry where
  "index_page = plain_entry ''index.html'' ''<h1>hi</h1>''"

definition relative_passwd :: zip_entry where
  "relative_passwd = plain_entry ''../../etc/passwd'' ''root''"

definition absolute_passwd :: zip_entry where
  "absolute_passwd = plain_entry ''/etc/passwd'' ''root''"

definition traversal_directory :: zip_entry where
  "traversal_directory = plain_entry ''../d/'' []"

definition nested_index :: zip_entry where
  "nested_index = plain_entry ''docs/Index.HTML'' ''<h1>hi</h1>''"

definition style_sheet :: zip_entry where
  "style_sheet = plain_entry ''style.css'' ''body{}''"

definition app_script :: zip_entry where
  "app_script = plain_entry ''app.js'' ''1''"

definition program_file :: zip_entry where
  "program_file = plain_entry ''report.exe'' ''MZ''"

definition dotted_page :: zip_entry where
  "dotted_page = plain_entry ''a..b.html'' ''<p>x</p>''"

definition nested_style :: zip_entry where
  "nested_style = plain_entry ''css/a.css'' ''body{}''"

definition script_page :: zip_entry where
  "script_page = plain_entry ''index.html'' ''<script>alert(1)</script>''"

definition dotted_backup :: zip_entry where
  "dotted_backup = plain_entry ''notes..backup.html'' ''<p>x</p>''"

definition demo_site :: string where
  "demo_site = ''/app/sites/u1/s1''"

section \<open>Validation\<close>








section \<open>Extraction, entry by entry\<close>

lemma accepted_valid_name: "accepted_entry e \<Longrightarrow> validateFileName (fileName e) = None"
  by (auto simp: accepted_entry_def entry_verdict_def split: option.splits)

lemma readEntries_dir_step:
  "accepted_entry e \<Longrightarrow> is_directory_entry e \<Longrightarrow>
   readEntries dir (e # rest) zerr acc h fs = readEntries dir rest zerr acc h fs"
  by (simp add: accepted_valid_name)

lemma readEntries_file_step:
  "accepted_entry e \<Longrightarrow> \<not> is_directory_entry e \<Longrightarrow>
   readEntries dir (e # rest) zerr acc h fs =
     readEntries dir rest zerr (acc @ [fileName e]) (h \<or> is_index_html (fileName e))
       (stage_entry dir e fs)"
  by (auto simp: accepted_entry_def entry_verdict_def Let_def stage_entry_def
      split: if_splits option.splits stream_fault.splits)

lemma readEntries_rejected_step:
  "entry_verdict e = Some err \<Longrightarrow> fst (readEntries dir (e # rest) zerr acc h fs) = Inl err"
  by (auto simp: entry_verdict_def Let_def split: if_splits option.splits stream_fault.splits)

lemma readEntries_invalid_name_step:
  "validateFileName (fileName e) = Some msg \<Longrightarrow>
   readEntries dir (e # rest) zerr acc h fs = (Inl (ZipProcessingError msg), fs)"
  by simp

lemma readEntries_end_state: "snd (readEntries dir [] zerr acc h fs) = fs"
  by (simp split: option.splits)

lemma readEntries_first_rejected:
  "List.find rejected_entry es = Some x \<Longrightarrow> entry_verdict x = Some err \<Longrightarrow>
   fst (readEntries dir es zerr acc h fs) = Inl err"
proof (induction es arbitrary: acc h fs)
  case Nil
  then show ?case by simp
next
  case (Cons a es)
  show ?case
  proof (cases "rejected_entry a")
    case False
    then have a: "accepted_entry a" by (simp add: rejected_entry_def)
    from False Cons.prems have "List.find rejected_entry es = Some x" by simp
    note IH = Cons.IH [OF this Cons.prems(2)]
    show ?thesis
    proof (cases "is_directory_entry a")
      case True
      then show ?thesis using IH by (simp only: readEntries_dir_step [OF a True])
    next
      case False
      then show ?thesis using IH by (simp only: readEntries_file_step [OF a False])
    qed
  next
    case True
    with Cons.prems have "x = a" by simp
    with Cons.prems(2) show ?thesis by (simp only: readEntries_rejected_step)
  qed
qed

lemma readEntries_all_accepted:
  "list_all accepted_entry es \<Longrightarrow>
   fst (readEntries dir es zerr acc h fs) =
     (case zerr of
        Some msg \<Rightarrow> Inl (ZipProcessingError msg)
      | None \<Rightarrow>
          if h \<or> list_ex index_entry es then
            Inr \<lparr>result_files = acc @ map fileName (filter file_entry es), result_hasIndexHtml = True\<rparr>
          else Inl MissingIndexHtml)"
proof (induction es arbitrary: acc h fs zerr)
  case Nil
  then show ?case by (simp split: option.splits)
next
  case (Cons a es)
  then have a: "accepted_entry a" and es: "list_all accepted_entry es" by simp_all
  show ?case
  proof (cases "is_directory_entry a")
    case True
    then have "\<not> index_entry a" "\<not> file_entry a"
      by (simp_all add: index_entry_def file_entry_def)
    then show ?thesis
      by (cases zerr)
         (simp_all add: readEntries_dir_step [OF a True] Cons.IH [OF es] del: readEntries.simps)
  next
    case False
    then have "index_entry a = is_index_html (fileName a)" "file_entry a"
      by (simp_all add: index_entry_def file_entry_def)
    then show ?thesis
      by (cases zerr)
         (simp_all add: readEntries_file_step [OF a False] Cons.IH [OF es] disj_assoc
            del: readEntries.simps)
  qed
qed

lemma rejected_has_verdict: "rejected_entry x \<Longrightarrow> \<exists>err. entry_verdict x = Some err"
  by (cases "entry_verdict x") (simp_all add: rejected_entry_def accepted_entry_def)

lemma find_rejected:
  assumes "\<not> list_all accepted_entry es"
  shows "\<exists>x err. List.find rejected_entry es = Some x \<and> entry_verdict x = Some err"
proof -
  from assms have "\<exists>x\<in>set es. rejected_entry x"
    by (auto simp: list_all_iff rejected_entry_def)
  then obtain x where x: "List.find rejected_entry es = Some x"
    by (cases "List.find rejected_entry es") (auto simp: find_None_iff)
  then have "rejected_entry x" by (auto simp: find_Some_iff)
  with rejected_has_verdict x show ?thesis by blast
qed

lemma readEntries_success:
  assumes "fst (readEntries dir es zerr acc h fs) = Inr r"
  shows "list_all accepted_entry es \<and> zerr = None \<and> (h \<or> list_ex index_entry es)
         \<and> r = \<lparr>result_files = acc @ map fileName (filter file_entry es), result_hasIndexHtml = True\<rparr>"
proof -
  have acc: "list_all accepted_entry es"
  proof (rule ccontr)
    assume "\<not> list_all accepted_entry es"
    from find_rejected [OF this] obtain x err
      where "List.find rejected_entry es = Some x" "entry_verdict x = Some err" by blast
    from readEntries_first_rejected [OF this] assms show False by simp
  qed
  from readEntries_all_accepted [OF acc, of dir zerr acc h fs] assms show ?thesis
    using acc by (auto split: option.splits if_splits)
qed

lemma readEntries_invalid_name_entry:
  assumes "validateFileName (fileName e) = Some msg"
  shows "(\<exists>err. fst (readEntries dir (pre @ e # post) zerr acc h fs) = Inl err)
   \<and> snd (readEntries dir (pre @ e # post) zerr acc h fs) = snd (readEntries dir pre zerr' acc h fs)"
proof (induction pre arbitrary: acc h fs)
  case Nil
  show ?case
    by (simp only: append_Nil readEntries_invalid_name_step [OF assms] readEntries_end_state) simp
next
  case (Cons a pre)
  show ?case
  proof (cases "entry_verdict a")
    case None
    then have a: "accepted_entry a" by (simp add: accepted_entry_def)
    show ?thesis
    proof (cases "is_directory_entry a")
      case True
      then show ?thesis using Cons.IH by (simp only: append_Cons readEntries_dir_step [OF a True])
    next
      case False
      then show ?thesis using Cons.IH
        by (simp only: append_Cons readEntries_file_step [OF a False])
    qed
  next
    case (Some err)
    then show ?thesis
      by (auto simp: entry_verdict_def Let_def split: if_splits option.splits stream_fault.splits)
  qed
qed

section \<open>Segments and substrings\<close>

lemma split_path_nonempty: "split_path p \<noteq> []"
  by (induction p) (auto split: list.splits)

lemma hd_split_prefix: "prefix (hd (split_path p)) p"
  by (induction p) (auto split: list.splits)

lemma segment_sublist: "seg \<in> set (split_path p) \<Longrightarrow> sublist seg p"
proof (induction p arbitrary: seg)
  case Nil
  then show ?case by simp
next
  case (Cons c cs)
  show ?case
  proof (cases "c = slash")
    case True
    with Cons.prems have "seg = [] \<or> seg \<in> set (split_path cs)" by simp
    then show ?thesis using Cons.IH by (auto simp: sublist_Cons_right)
  next
    case False
    obtain s ss where sp: "split_path cs = s # ss"
      using split_path_nonempty [of cs] by (cases "split_path cs") auto
    with False Cons.prems have "seg = c # s \<or> seg \<in> set ss" by simp
    then show ?thesis
    proof
      assume "seg = c # s"
      moreover have "prefix s cs" using hd_split_prefix [of cs] sp by simp
      ultimately show ?thesis by (simp add: sublist_Cons_right)
    next
      assume "seg \<in> set ss"
      then have "seg \<in> set (split_path cs)" using sp by simp
      then show ?thesis using Cons.IH by (simp add: sublist_Cons_right)
    qed
  qed
qed

lemma traversal_is_unsafe:
  "has_traversal_segment (path_normalize name) \<or> path_isAbsolute (path_normalize name) \<Longrightarrow> unsafe_path name"
  by (auto simp: unsafe_path_def has_traversal_segment_def str_includes_def Let_def
      dest: segment_sublist)

lemma find_after_accepted:
  "list_all accepted_entry pre \<Longrightarrow> rejected_entry e \<Longrightarrow> List.find rejected_entry (pre @ e # post) = Some e"
  by (induction pre) (simp_all add: rejected_entry_def)

lemma unsupported_verdict:
  "\<not> is_directory_entry e \<Longrightarrow> entry_ext e \<notin> set ALLOWED_ZIP_CONTENT \<Longrightarrow>
   entry_verdict e =
     Some (case validateFileName (fileName e) of
             Some msg \<Rightarrow> ZipProcessingError msg
           | None \<Rightarrow> if unsafe_path (fileName e) then InvalidZipPath (fileName e)
                     else UnsupportedZipContent (fileName e) (entry_ext e))"
  by (simp add: entry_verdict_def split: option.splits)

lemma unsafe_verdict:
  "\<not> is_directory_entry e \<Longrightarrow> unsafe_path (fileName e) \<Longrightarrow>
   entry_verdict e =
     Some (case validateFileName (fileName e) of
             Some msg \<Rightarrow> ZipProcessingError msg
           | None \<Rightarrow> InvalidZipPath (fileName e))"
  by (simp add: entry_verdict_def split: option.splits)

lemma invalid_name_verdict:
  "validateFileName (fileName e) = Some msg \<Longrightarrow> entry_verdict e = Some (ZipProcessingError msg)"
  by (simp add: entry_verdict_def)

lemma unsafe_entry_rejected: "\<not> is_directory_entry e \<Longrightarrow> unsafe_path (fileName e) \<Longrightarrow> rejected_entry e"
  by (simp add: rejected_entry_def accepted_entry_def unsafe_verdict)

lemma deployFiles_success_files:
  "deployFiles env tempDir siteDir names processed tot fs = (Inr finished, fs') \<Longrightarrow>
   fst finished = processed @ names"
proof (induction names arbitrary: processed tot fs)
  case Nil
  then show ?case by auto
next
  case (Cons name rest)
  from Cons.prems show ?case
    by (auto simp: Let_def split: option.splits sum.splits if_splits dest!: Cons.IH)
qed

lemma processUpload_zip_success:
  assumes "processUpload env (Some f) ''zip'' userId siteId fs = (Inr s, fs')"
  shows "\<exists>r fs1. extractZip env (fpath f) (stagingDir env siteId) (fs_mkdir fs (stagingDir env siteId)) = (Inr r, fs1)
           \<and> summary_hasIndexHtml s = Some (result_hasIndexHtml r)
           \<and> summary_files s = result_files r"
  using assms
  by (auto simp: processUpload_def processZipUpload_def zipUploadBody_def Let_def createSiteDir_def
      split: sum.splits prod.splits dest: deployFiles_success_files)

section \<open>The index page requirement\<close>

text \<open>
  Claim C4, with the reason tied to the entries being consumed. An extraction that succeeds
  has seen a file entry whose base name is \<^verbatim>\<open>index.html\<close> in some letter case, at any depth,
  and its \<^verbatim>\<open>hasIndexHtml\<close> flag (true) agrees with that; so does every ZIP upload that
  succeeds. Without such an entry the extraction always fails. The reason is the missing
  index page when every entry was consumed (its name accepted by the ZIP library, and then
  skipped as a directory, or checked and streamed without fault) and the archive ended
  without an error of its own, in particular when the archive has no file entry at all and
  the library accepts the names of its directory entries; when an entry is rejected first,
  the reason is that entry's.
\<close>

theorem index_html_required:
  assumes "yauzl_open env zipPath = Inr z"
  shows "(fst (extractZip env zipPath dir fs) = Inr r \<longrightarrow>
            list_ex index_entry (delivered z) \<and> result_hasIndexHtml r = list_ex index_entry (delivered z))
       \<and> (\<not> list_ex index_entry (delivered z) \<longrightarrow> (\<exists>err. fst (extractZip env zipPath dir fs) = Inl err))
       \<and> (\<not> list_ex index_entry (delivered z) \<and> list_all accepted_entry (delivered z) \<and> zip_error z = None \<longrightarrow>
            fst (extractZip env zipPath dir fs) = Inl MissingIndexHtml)
       \<and> (list_all is_directory_entry (delivered z)
            \<and> list_all (\<lambda>e. validateFileName (fileName e) = None) (delivered z) \<and> zip_error z = None \<longrightarrow>
            fst (extractZip env zipPath dir fs) = Inl MissingIndexHtml)
       \<and> (processUpload env (Some f) ''zip'' userId siteId fs = (Inr s, fs') \<and> fpath f = zipPath \<longrightarrow>
            list_ex index_entry (delivered z) \<and> summary_hasIndexHtml s = Some True)"
proof -
  have ex: "extractZip env zipPath d fs0 = readEntries d (delivered z) (zip_error z) [] False fs0" for d fs0
    using assms by (simp add: extractZip_def delivered_def)
  have success: "list_ex index_entry (delivered z) \<and> r0 = \<lparr>result_files = map fileName (filter file_entry (delivered z)), result_hasIndexHtml = True\<rparr>"
    if "fst (extractZip env zipPath d fs0) = Inr r0" for d fs0 r0
    using readEntries_success [of d "delivered z" "zip_error z" "[]" False fs0 r0] that
    by (simp add: ex)
  have c1: "fst (extractZip env zipPath dir fs) = Inr r \<longrightarrow>
            list_ex index_entry (delivered z) \<and> result_hasIndexHtml r = list_ex index_entry (delivered z)"
    using success [of dir fs r] by auto
  have c2: "\<not> list_ex index_entry (delivered z) \<longrightarrow> (\<exists>err. fst (extractZip env zipPath dir fs) = Inl err)"
    using success [of dir fs] by (cases "fst (extractZip env zipPath dir fs)") auto
  have c3: "\<not> list_ex index_entry (delivered z) \<and> list_all accepted_entry (delivered z) \<and> zip_error z = None \<longrightarrow>
            fst (extractZip env zipPath dir fs) = Inl MissingIndexHtml"
    by (simp add: ex readEntries_all_accepted)
  have dirs: "list_all accepted_entry es \<and> \<not> list_ex index_entry es"
    if "list_all is_directory_entry es" "list_all (\<lambda>e. validateFileName (fileName e) = None) es" for es
    using that by (induction es) (simp_all add: accepted_entry_def entry_verdict_def index_entry_def)
  have c4: "list_all is_directory_entry (delivered z)
            \<and> list_all (\<lambda>e. validateFileName (fileName e) = None) (delivered z) \<and> zip_error z = None \<longrightarrow>
            fst (extractZip env zipPath dir fs) = Inl MissingIndexHtml"
    using dirs [of "delivered z"] by (simp add: ex readEntries_all_accepted)
  have c5: "processUpload env (Some f) ''zip'' userId siteId fs = (Inr s, fs') \<and> fpath f = zipPath \<longrightarrow>
            list_ex index_entry (delivered z) \<and> summary_hasIndexHtml s = Some True"
  proof
    assume a: "processUpload env (Some f) ''zip'' userId siteId fs = (Inr s, fs') \<and> fpath f = zipPath"
    then obtain r0 fs1 where
      "extractZip env zipPath (stagingDir env siteId) (fs_mkdir fs (stagingDir env siteId)) = (Inr r0, fs1)"
      "summary_hasIndexHtml s = Some (result_hasIndexHtml r0)"
      using processUpload_zip_success [of env f userId siteId fs s fs'] by auto
    then show "list_ex index_entry (delivered z) \<and> summary_hasIndexHtml s = Some True"
      using success [of "stagingDir env siteId" "fs_mkdir fs (stagingDir env siteId)" r0] by simp
  qed
  from c1 c2 c3 c4 c5 show ?thesis by blast
qed

text \<open>
  An archive holding only \<^verbatim>\<open>report.exe\<close> has no index page, and the reason of the failure is
  the unsupported file type.
\<close>

theorem missing_index_reason_counterexample:
  "\<not> list_ex index_entry (delivered (archive [program_file]))
   \<and> fst (extractZip (demo_env Some (archive [program_file])) demo_zip_path demo_staging demo_fs)
     = Inl (UnsupportedZipContent ''report.exe'' ''.exe'')"
  by code_simp

text \<open>
  An index page in a subdirectory and in upper case counts, for the extraction and for the
  upload; a style sheet and a script without an index page, and the empty archive, fail for
  the missing index page.
\<close>

theorem index_html_required_witness:
  "list_ex index_entry (delivered (archive [style_sheet, nested_index]))
   \<and> fst (extractZip (demo_env Some (archive [style_sheet, nested_index])) demo_zip_path demo_staging demo_fs)
     = Inr \<lparr>result_files = [''style.css'', ''docs/Index.HTML''], result_hasIndexHtml = True\<rparr>
   \<and> fst (processUpload (demo_env Some (archive [style_sheet, nested_index])) (Some (demo_upload ''site.zip''))
          ''zip'' ''u1'' ''s1'' demo_fs)
     = Inr \<lparr>summary_type = ''zip'', summary_files = [''style.css'', ''docs/Index.HTML''],
            summary_size = 17, summary_hasIndexHtml = Some True\<rparr>
   \<and> fst (extractZip (demo_env Some (archive [style_sheet, app_script])) demo_zip_path demo_staging demo_fs)
     = Inl MissingIndexHtml
   \<and> fst (extractZip (demo_env Some (archive [])) demo_zip_path demo_staging demo_fs) = Inl MissingIndexHtml"
proof -
  have o1: "yauzl_open (demo_env Some (archive [style_sheet, nested_index])) demo_zip_path
              = Inr (archive [style_sheet, nested_index])"
    and o2: "yauzl_open (demo_env Some (archive [style_sheet, app_script])) demo_zip_path
              = Inr (archive [style_sheet, app_script])"
    and o3: "yauzl_open (demo_env Some (archive [])) demo_zip_path = Inr (archive [])"
    by (simp_all add: demo_env_def)
  have r1: "fst (extractZip (demo_env Some (archive [style_sheet, nested_index])) demo_zip_path demo_staging demo_fs)
     = Inr \<lparr>result_files = [''style.css'', ''docs/Index.HTML''], result_hasIndexHtml = True\<rparr>"
    by code_simp
  have up: "fst (processUpload (demo_env Some (archive [style_sheet, nested_index])) (Some (demo_upload ''site.zip''))
          ''zip'' ''u1'' ''s1'' demo_fs)
     = Inr \<lparr>summary_type = ''zip'', summary_files = [''style.css'', ''docs/Index.HTML''],
            summary_size = 17, summary_hasIndexHtml = Some True\<rparr>"
    by code_simp
  then have u1: "processUpload (demo_env Some (archive [style_sheet, nested_index])) (Some (demo_upload ''site.zip''))
          ''zip'' ''u1'' ''s1'' demo_fs
     = (Inr \<lparr>summary_type = ''zip'', summary_files = [''style.css'', ''docs/Index.HTML''],
            summary_size = 17, summary_hasIndexHtml = Some True\<rparr>,
        snd (processUpload (demo_env Some (archive [style_sheet, nested_index])) (Some (demo_upload ''site.zip''))
          ''zip'' ''u1'' ''s1'' demo_fs))
     \<and> fpath (demo_upload ''site.zip'') = demo_zip_path"
    by (simp add: prod_eq_iff demo_upload_def)
  have h2: "\<not> list_ex index_entry (delivered (archive [style_sheet, app_script]))
            \<and> list_all accepted_entry (delivered (archive [style_sheet, app_script]))
            \<and> zip_error (archive [style_sheet, app_script]) = None"
    by code_simp
  have h3: "list_all is_directory_entry (delivered (archive []))
            \<and> list_all (\<lambda>e. validateFileName (fileName e) = None) (delivered (archive []))
            \<and> zip_error (archive []) = None"
    by code_simp
  from index_html_required [OF o1, of demo_staging demo_fs
         "\<lparr>result_files = [''style.css'', ''docs/Index.HTML''], result_hasIndexHtml = True\<rparr>"
         "demo_upload ''site.zip''" "''u1''" "''s1''"
         "\<lparr>summary_type = ''zip'', summary_files = [''style.css'', ''docs/Index.HTML''],
            summary_size = 17, summary_hasIndexHtml = Some True\<rparr>"
         "snd (processUpload (demo_env Some (archive [style_sheet, nested_index])) (Some (demo_upload ''site.zip''))
          ''zip'' ''u1'' ''s1'' demo_fs)"]
       index_html_required [OF o2, of demo_staging demo_fs]
       index_html_required [OF o3, of demo_staging demo_fs]
       r1 up u1 h2 h3
  show ?thesis by simp
qed

section \<open>The extension allowlist\<close>

text \<open>
  Claim C5, with the reason naming the first rejected entry. When an archive holds a file
  entry whose lower-cased extension is outside \<^verbatim>\<open>ALLOWED_ZIP_CONTENT\<close>, the extraction fails
  as a whole: no result is returned, and the error is the verdict on the first entry of the
  archive that is not consumed. When every entry in front of the disallowed one was consumed,
  that first entry is the disallowed one and the error names it: the unsupported-type error
  with its name and extension, or, if its name is refused as well, the error about the name:
  the archive error with the message of the ZIP library, or the invalid-path error of the
  extractor.
\<close>

theorem disallowed_extension_aborts:
  assumes "yauzl_open env zipPath = Inr z" and "delivered z = pre @ e # post"
    and "\<not> is_directory_entry e" and "entry_ext e \<notin> set ALLOWED_ZIP_CONTENT"
  shows "(\<exists>x err. List.find rejected_entry (delivered z) = Some x \<and> entry_verdict x = Some err
            \<and> fst (extractZip env zipPath dir fs) = Inl err)
       \<and> (list_all accepted_entry pre \<longrightarrow>
            fst (extractZip env zipPath dir fs)
              = Inl (case validateFileName (fileName e) of
                       Some msg \<Rightarrow> ZipProcessingError msg
                     | None \<Rightarrow> if unsafe_path (fileName e) then InvalidZipPath (fileName e)
                               else UnsupportedZipContent (fileName e) (entry_ext e)))"
proof -
  have ex: "extractZip env zipPath dir fs = readEntries dir (delivered z) (zip_error z) [] False fs"
    using assms(1) by (simp add: extractZip_def delivered_def)
  note v = unsupported_verdict [OF assms(3,4)]
  then have rej: "rejected_entry e" by (simp add: rejected_entry_def accepted_entry_def)
  then have "\<not> list_all accepted_entry (delivered z)"
    by (simp add: assms(2) rejected_entry_def)
  from find_rejected [OF this] obtain x err
    where x: "List.find rejected_entry (delivered z) = Some x" "entry_verdict x = Some err" by blast
  have first: "\<exists>x err. List.find rejected_entry (delivered z) = Some x \<and> entry_verdict x = Some err
            \<and> fst (extractZip env zipPath dir fs) = Inl err"
    using x readEntries_first_rejected [OF x] by (auto simp: ex)
  have named: "list_all accepted_entry pre \<longrightarrow>
            fst (extractZip env zipPath dir fs)
              = Inl (case validateFileName (fileName e) of
                       Some msg \<Rightarrow> ZipProcessingError msg
                     | None \<Rightarrow> if unsafe_path (fileName e) then InvalidZipPath (fileName e)
                               else UnsupportedZipContent (fileName e) (entry_ext e))"
  proof
    assume "list_all accepted_entry pre"
    from find_after_accepted [OF this rej, of post] v
    show "fst (extractZip env zipPath dir fs)
              = Inl (case validateFileName (fileName e) of
                       Some msg \<Rightarrow> ZipProcessingError msg
                     | None \<Rightarrow> if unsafe_path (fileName e) then InvalidZipPath (fileName e)
                               else UnsupportedZipContent (fileName e) (entry_ext e))"
      unfolding ex assms(2) by (rule readEntries_first_rejected)
  qed
  from first named show ?thesis by blast
qed

text \<open>
  With \<^verbatim>\<open>a..b.html\<close> in front of \<^verbatim>\<open>report.exe\<close> the error names the HTML file, whose
  extension is allowed, and not the program.
\<close>

theorem rejection_names_earlier_entry_counterexample:
  "entry_ext program_file \<notin> set ALLOWED_ZIP_CONTENT
   \<and> entry_ext dotted_page \<in> set ALLOWED_ZIP_CONTENT
   \<and> fileName program_file = ''report.exe''
   \<and> fst (extractZip (demo_env Some (archive [dotted_page, program_file])) demo_zip_path demo_staging demo_fs)
     = Inl (InvalidZipPath ''a..b.html'')"
  by code_simp

text \<open>The program after an index page and before a style sheet.\<close>

theorem disallowed_extension_aborts_witness:
  "fst (extractZip (demo_env Some (archive [index_page, program_file, style_sheet])) demo_zip_path demo_staging demo_fs)
     = Inl (UnsupportedZipContent ''report.exe'' ''.exe'')"
proof -
  have o: "yauzl_open (demo_env Some (archive [index_page, program_file, style_sheet])) demo_zip_path
              = Inr (archive [index_page, program_file, style_sheet])"
    by (simp add: demo_env_def)
  have e: "delivered (archive [index_page, program_file, style_sheet]) = [index_page] @ program_file # [style_sheet]"
    by code_simp
  have f: "\<not> is_directory_entry program_file" by code_simp
  have x: "entry_ext program_file \<notin> set ALLOWED_ZIP_CONTENT" by code_simp
  have a: "list_all accepted_entry [index_page]" by code_simp
  have u: "\<not> unsafe_path (fileName program_file)" "validateFileName (fileName program_file) = None"
    by code_simp+
  have n: "fileName program_file = ''report.exe''" "entry_ext program_file = ''.exe''" by code_simp+
  from disallowed_extension_aborts [OF o e f x, of demo_staging demo_fs] a u n
  show ?thesis by simp
qed

section \<open>Normalization and joining of paths\<close>

lemma split_path_append: "split_path (a @ slash # b) = split_path a @ split_path b"
proof (induction a)
  case Nil
  then show ?case by simp
next
  case (Cons c cs)
  obtain s ss where "split_path cs = s # ss"
    using split_path_nonempty [of cs] by (cases "split_path cs") auto
  with Cons show ?case by simp
qed

lemma split_no_slash: "seg \<in> set (split_path p) \<Longrightarrow> slash \<notin> set seg"
proof (induction p arbitrary: seg)
  case Nil
  then show ?case by simp
next
  case (Cons c cs)
  obtain s ss where sp: "split_path cs = s # ss"
    using split_path_nonempty [of cs] by (cases "split_path cs") auto
  have "slash \<notin> set s" "\<And>x. x \<in> set ss \<Longrightarrow> slash \<notin> set x"
    using Cons.IH sp by simp_all
  with Cons.prems sp show ?case by (auto split: if_splits)
qed

lemma split_path_plain: "slash \<notin> set s \<Longrightarrow> split_path s = [s]"
  by (induction s) auto

lemma split_join:
  "S \<noteq> [] \<Longrightarrow> \<forall>s\<in>set S. slash \<notin> set s \<Longrightarrow> split_path (join_segments S) = S"
proof (induction S rule: join_segments.induct)
  case 1
  then show ?case by simp
next
  case (2 s)
  then show ?case by (simp add: split_path_plain)
next
  case (3 s t ss)
  then show ?case by (simp add: split_path_append split_path_plain)
qed

lemma segment_in_join: "seg \<in> set S \<Longrightarrow> sublist seg (join_segments S)"
proof (induction S rule: join_segments.induct)
  case 1
  then show ?case by simp
next
  case (2 s)
  then show ?case by simp
next
  case (3 s t ss)
  from "3.prems" have "seg = s \<or> seg \<in> set (t # ss)" by auto
  then show ?case
  proof
    assume "seg = s"
    then show ?thesis by simp
  next
    assume "seg \<in> set (t # ss)"
    then have "sublist seg (join_segments (t # ss))" by (rule "3.IH")
    then obtain ps qs where "join_segments (t # ss) = ps @ seg @ qs"
      by (auto simp: sublist_def)
    then have "join_segments (s # t # ss) = (s @ slash # ps) @ seg @ qs" by simp
    then show ?thesis unfolding sublist_def by blast
  qed
qed

lemma norm_step_plain: "plain_segment x \<Longrightarrow> norm_step a st x = x # st"
  by (simp add: plain_segment_def norm_step.simps)

lemma run_plain: "list_all plain_segment xs \<Longrightarrow> foldl (norm_step a) st xs = rev xs @ st"
  by (induction xs arbitrary: st) (simp_all add: norm_step_plain)

lemma norm_step_keeps_dotdot: "''..'' \<in> set st \<Longrightarrow> ''..'' \<in> set (norm_step True st x)"
  by (cases st) (auto simp: norm_step.simps)

lemma run_keeps_dotdot: "''..'' \<in> set st \<Longrightarrow> ''..'' \<in> set (foldl (norm_step True) st xs)"
  by (induction xs arbitrary: st) (simp_all add: norm_step_keeps_dotdot)

lemma norm_step_no_dotdot: "''..'' \<notin> set st \<Longrightarrow> ''..'' \<notin> set (norm_step False st x)"
  by (cases st) (auto simp: norm_step.simps)

lemma run_no_dotdot: "''..'' \<notin> set st \<Longrightarrow> ''..'' \<notin> set (foldl (norm_step False) st xs)"
  by (induction xs arbitrary: st) (simp_all add: norm_step_no_dotdot)

lemma norm_step_kept:
  "list_all kept_segment st \<Longrightarrow> slash \<notin> set x \<Longrightarrow> list_all kept_segment (norm_step a st x)"
  by (cases st) (auto simp: kept_segment_def slash_def norm_step.simps)

lemma run_kept:
  "list_all kept_segment st \<Longrightarrow> \<forall>x\<in>set xs. slash \<notin> set x \<Longrightarrow>
   list_all kept_segment (foldl (norm_step a) st xs)"
  by (induction xs arbitrary: st) (simp_all add: norm_step_kept)

lemma run_split_kept: "list_all kept_segment (foldl (norm_step a) [] (split_path p))"
  by (rule run_kept) (simp_all add: split_no_slash)

lemma kept_plain: "list_all kept_segment st \<Longrightarrow> ''..'' \<notin> set st \<Longrightarrow> list_all plain_segment st"
  by (auto simp: list_all_iff kept_segment_def plain_segment_def)

lemma run_on_base:
  "''..'' \<notin> set T \<Longrightarrow> ''..'' \<notin> set (foldl (norm_step True) T xs) \<Longrightarrow>
   foldl (norm_step a) (T @ U) xs = foldl (norm_step True) T xs @ U"
proof (induction xs arbitrary: T)
  case Nil
  then show ?case by simp
next
  case (Cons x xs)
  have step_clean: "''..'' \<notin> set (norm_step True T x)"
  proof
    assume "''..'' \<in> set (norm_step True T x)"
    then have "''..'' \<in> set (foldl (norm_step True) (norm_step True T x) xs)"
      by (rule run_keeps_dotdot)
    with Cons.prems(2) show False by simp
  qed
  have step_eq: "norm_step a (T @ U) x = norm_step True T x @ U"
  proof (cases T)
    case Nil
    with step_clean show ?thesis by (auto simp: norm_step.simps split: if_splits)
  next
    case (Cons t ts)
    with Cons.prems(1) show ?thesis by (auto simp: norm_step.simps)
  qed
  from Cons.IH [OF step_clean] Cons.prems(2) show ?case
    by (simp add: step_eq)
qed

lemma join_empty_iff: "list_all plain_segment S \<Longrightarrow> join_segments S = [] \<longleftrightarrow> S = []"
  by (cases S rule: join_segments.cases) (simp_all add: plain_segment_def)

lemma plain_segments_filter: "list_all plain_segment S \<Longrightarrow> filter (\<lambda>s. s \<noteq> []) S = S"
  by (induction S) (simp_all add: plain_segment_def)

lemma plain_no_slash: "list_all plain_segment S \<Longrightarrow> \<forall>s\<in>set S. slash \<notin> set s"
  by (simp add: list_all_iff plain_segment_def)

lemma norm_step_empty: "norm_step a st [] = st"
  by (simp add: norm_step.simps)

lemma absolute_nonempty: "path_isAbsolute q \<Longrightarrow> \<exists>cs. q = slash # cs"
  by (cases q) (simp_all add: path_isAbsolute_def)

lemma normalize_absolute:
  assumes "path_isAbsolute q"
  shows "path_isAbsolute (path_normalize q)
       \<and> path_segments (path_normalize q) = rev (foldl (norm_step False) [] (split_path q))
       \<and> foldl (norm_step False) [] (split_path (path_normalize q))
           = foldl (norm_step False) [] (split_path q)
       \<and> list_all plain_segment (foldl (norm_step False) [] (split_path q))"
proof -
  define T where "T = foldl (norm_step False) [] (split_path q)"
  define S where "S = rev T"
  have "''..'' \<notin> set T" unfolding T_def by (rule run_no_dotdot) simp
  with run_split_kept [of False q] have plainT: "list_all plain_segment T"
    unfolding T_def by (rule kept_plain)
  then have plain: "list_all plain_segment S" by (simp add: S_def)
  from assms have q: "q \<noteq> []" by (auto dest: absolute_nonempty)
  have norm: "path_normalize q =
      (if S = [] then ''/'' else slash # join_segments S @ (if last q = slash then ''/'' else []))"
    using assms q join_empty_iff [OF plain]
    by (simp add: path_normalize_def normalizeString_def Let_def T_def [symmetric] S_def [symmetric] slash_def)
  show ?thesis
  proof (cases "S = []")
    case True
    then have "T = []" by (simp add: S_def)
    with True norm plainT show ?thesis
      by (simp add: T_def [symmetric] path_isAbsolute_def path_segments_def slash_def norm_step_empty)
  next
    case False
    have sp: "split_path (join_segments S) = S"
      using False plain_no_slash [OF plain] by (rule split_join)
    have sp2: "split_path (join_segments S @ ''/'') = S @ [[]]"
      using split_path_append [of "join_segments S" "[]"] sp by (simp add: slash_def)
    have run: "foldl (norm_step False) [] S = T"
      using run_plain [OF plain, of False "[]"] by (simp add: S_def)
    from False norm sp sp2 run plainT show ?thesis
      by (simp add: T_def [symmetric] path_isAbsolute_def path_segments_def
            plain_segments_filter [OF plain] norm_step_empty S_def [symmetric])
  qed
qed

lemma absolute_normalize_absolute: "path_isAbsolute f \<Longrightarrow> path_isAbsolute (path_normalize f)"
  using normalize_absolute by blast

lemma sublist_nil_only: "sublist ''..'' p \<Longrightarrow> p \<noteq> []"
  by auto

lemma safe_relative_no_dotdot:
  assumes "safe_name f"
  shows "\<not> path_isAbsolute f \<and> ''..'' \<notin> set (foldl (norm_step True) [] (split_path f))"
proof -
  from assms have inc: "\<not> sublist ''..'' (path_normalize f)"
    and nabs: "\<not> path_isAbsolute (path_normalize f)"
    by (simp_all add: safe_name_def unsafe_path_def Let_def str_includes_def)
  from nabs have rel: "\<not> path_isAbsolute f" using absolute_normalize_absolute by blast
  define T where "T = foldl (norm_step True) [] (split_path f)"
  have "''..'' \<notin> set T"
  proof
    assume "''..'' \<in> set T"
    then have "''..'' \<in> set (rev T)" by simp
    then have sub: "sublist ''..'' (join_segments (rev T))" by (rule segment_in_join)
    then have ne: "join_segments (rev T) \<noteq> []" by (rule sublist_nil_only)
    have fne: "f \<noteq> []"
    proof
      assume "f = []"
      then have "T = []" by (simp add: T_def norm_step_empty)
      with \<open>''..'' \<in> set T\<close> show False by simp
    qed
    from sub obtain ps qs where "join_segments (rev T) = ps @ ''..'' @ qs"
      by (auto simp: sublist_def)
    then have "join_segments (rev T) @ (if last f = slash then ''/'' else []) = ps @ ''..'' @ (qs @ (if last f = slash then ''/'' else []))"
      by simp
    then have "sublist ''..'' (join_segments (rev T) @ (if last f = slash then ''/'' else []))"
      unfolding sublist_def by blast
    moreover have "path_normalize f = join_segments (rev T) @ (if last f = slash then ''/'' else [])"
      using rel ne fne by (simp add: path_normalize_def normalizeString_def Let_def T_def)
    ultimately show False using inc by simp
  qed
  with rel show ?thesis by (simp add: T_def)
qed

lemma join_within_run:
  assumes "path_isAbsolute q" and "''..'' \<notin> set (foldl (norm_step True) [] (split_path f))"
  shows "within_dir (path_normalize q) (path_join [path_normalize q, f])"
proof -
  define d where "d = path_normalize q"
  define T where "T = foldl (norm_step False) [] (split_path q)"
  from normalize_absolute [OF assms(1)]
  have dabs: "path_isAbsolute d" and dseg: "path_segments d = rev T"
    and drun: "foldl (norm_step False) [] (split_path d) = T" and plainT: "list_all plain_segment T"
    by (simp_all add: d_def T_def)
  from dabs obtain cs where dcs: "d = slash # cs" by (auto dest: absolute_nonempty)
  have nodd: "''..'' \<notin> set T" using plainT by (auto simp: list_all_iff plain_segment_def)
  show ?thesis
  proof (cases "f = []")
    case True
    then have "path_join [d, f] = path_normalize d" using dcs by (simp add: path_join_def)
    moreover from normalize_absolute [OF dabs]
    have "path_segments (path_normalize d) = rev T" by (simp add: drun)
    ultimately show ?thesis using dseg nodd by (simp add: within_dir_def d_def [symmetric])
  next
    case False
    note fdd = assms(2)
    have pj: "path_join [d, f] = path_normalize (d @ slash # f)"
      using False dcs by (simp add: path_join_def)
    have jabs: "path_isAbsolute (d @ slash # f)" using dcs by (simp add: path_isAbsolute_def)
    have "foldl (norm_step False) [] (split_path (d @ slash # f))
            = foldl (norm_step False) ([] @ T) (split_path f)"
      by (simp add: split_path_append drun)
    also have "\<dots> = foldl (norm_step True) [] (split_path f) @ T"
      by (rule run_on_base) (simp_all add: fdd)
    finally have "path_segments (path_join [d, f]) = rev T @ rev (foldl (norm_step True) [] (split_path f))"
      using normalize_absolute [OF jabs] by (simp add: pj)
    then show ?thesis using dseg nodd fdd by (simp add: within_dir_def d_def [symmetric])
  qed
qed

lemma join_within:
  assumes "path_isAbsolute q" and "safe_name f"
  shows "within_dir (path_normalize q) (path_join [path_normalize q, f])"
  using assms(1) safe_relative_no_dotdot [OF assms(2)] by (simp add: join_within_run)

lemma join_segments_absolute: "path_isAbsolute x \<Longrightarrow> path_isAbsolute (join_segments (x # rest))"
  by (cases rest) (auto simp: path_isAbsolute_def split: list.splits)

lemma path_join_absolute:
  assumes "path_isAbsolute x"
  shows "\<exists>q. path_isAbsolute q \<and> path_join (x # rest) = path_normalize q"
proof -
  from assms have "x \<noteq> []" by (auto dest: absolute_nonempty)
  then have "path_join (x # rest) = path_normalize (join_segments (x # filter (\<lambda>a. a \<noteq> []) rest))"
    by (simp add: path_join_def)
  with join_segments_absolute [OF assms] show ?thesis by blast
qed

lemma getSiteDir_normal:
  assumes "path_isAbsolute (env_dirname env)"
  shows "\<exists>q. path_isAbsolute q \<and> getSiteDir (storage env) userId siteId = path_normalize q"
proof -
  from path_join_absolute [OF assms, of "[''sites'']"]
  have "path_isAbsolute (sitesDir (storage env))"
    by (auto simp: storage_def StorageManager_def absolute_normalize_absolute)
  from path_join_absolute [OF this, of "[userId, siteId]"] show ?thesis
    by (simp add: getSiteDir_def)
qed

section \<open>Names that the ZIP library accepts\<close>

lemma valid_name_facts:
  "validateFileName n = None \<Longrightarrow> \<not> path_isAbsolute n \<and> ''..'' \<notin> set (split_path n)"
  by (simp add: validateFileName_def split: if_splits)

lemma run_filter:
  "''..'' \<notin> set xs \<Longrightarrow>
   foldl (norm_step a) st xs = rev (filter (\<lambda>s. s \<noteq> [] \<and> s \<noteq> ''.'') xs) @ st"
  by (induction xs arbitrary: st) (auto simp: norm_step.simps)

lemma split_filter_plain:
  "''..'' \<notin> set (split_path n) \<Longrightarrow>
   list_all plain_segment (filter (\<lambda>s. s \<noteq> [] \<and> s \<noteq> ''.'') (split_path n))"
  by (auto simp: list_all_iff plain_segment_def dest: split_no_slash)

lemma plain_not_absolute: "plain_segment s \<Longrightarrow> \<not> path_isAbsolute (s @ t)"
  by (cases s) (auto simp: plain_segment_def path_isAbsolute_def)

lemma join_plain_relative:
  "list_all plain_segment S \<Longrightarrow> S \<noteq> [] \<Longrightarrow> \<not> path_isAbsolute (join_segments S @ t)"
proof (cases S rule: join_segments.cases)
  case 1
  assume "S \<noteq> []"
  with 1 show ?thesis by simp
next
  case (2 s)
  assume "list_all plain_segment S"
  with 2 show ?thesis by (simp add: plain_not_absolute)
next
  case (3 s u ss)
  assume "list_all plain_segment S"
  with 3 plain_not_absolute [of s "slash # join_segments (u # ss) @ t"] show ?thesis by simp
qed

lemma valid_name_normalize:
  assumes "validateFileName n = None"
  shows "path_normalize n =
           (if n = [] then ''.''
            else if filter (\<lambda>s. s \<noteq> [] \<and> s \<noteq> ''.'') (split_path n) = []
              then (if last n = slash then ''./'' else ''.'')
            else join_segments (filter (\<lambda>s. s \<noteq> [] \<and> s \<noteq> ''.'') (split_path n))
                   @ (if last n = slash then ''/'' else []))"
proof -
  from valid_name_facts [OF assms]
  have rel: "\<not> path_isAbsolute n" and nodd: "''..'' \<notin> set (split_path n)" by simp_all
  have ns: "normalizeString n True = join_segments (filter (\<lambda>s. s \<noteq> [] \<and> s \<noteq> ''.'') (split_path n))"
    by (simp add: normalizeString_def run_filter [OF nodd])
  show ?thesis
    using rel join_empty_iff [OF split_filter_plain [OF nodd]]
    by (simp add: path_normalize_def Let_def ns)
qed

lemma valid_name_normal_form:
  assumes "validateFileName n = None"
  shows "\<not> has_traversal_segment (path_normalize n) \<and> \<not> path_isAbsolute (path_normalize n)"
proof -
  define K where "K = filter (\<lambda>s. s \<noteq> [] \<and> s \<noteq> ''.'') (split_path n)"
  from valid_name_facts [OF assms] have nodd: "''..'' \<notin> set (split_path n)" by simp
  then have plain: "list_all plain_segment K" unfolding K_def by (rule split_filter_plain)
  have ddK: "''..'' \<notin> set K" using nodd by (simp add: K_def)
  note nf = valid_name_normalize [OF assms, folded K_def]
  show ?thesis
  proof (cases "n = [] \<or> K = []")
    case True
    then show ?thesis using nf
      by (auto simp: has_traversal_segment_def path_isAbsolute_def slash_def)
  next
    case False
    then have K: "K \<noteq> []" and n: "n \<noteq> []" by simp_all
    have sp: "split_path (join_segments K) = K"
      using K plain_no_slash [OF plain] by (rule split_join)
    have sp2: "split_path (join_segments K @ ''/'') = K @ [[]]"
      using split_path_append [of "join_segments K" "[]"] sp by (simp add: slash_def)
    from join_plain_relative [OF plain K]
    have rel: "\<not> path_isAbsolute (join_segments K @ t)" for t .
    show ?thesis
      using nf K n sp sp2 ddK rel [of "[]"] rel [of "''/''"]
      by (simp add: has_traversal_segment_def)
  qed
qed

lemma traversal_name_refused:
  "has_traversal_segment (path_normalize n) \<or> path_isAbsolute (path_normalize n) \<Longrightarrow>
   \<exists>msg. validateFileName n = Some msg"
  using valid_name_normal_form [of n] by (cases "validateFileName n") auto

lemma dots_in_segment: "sublist ''..'' p \<Longrightarrow> \<exists>seg\<in>set (split_path p). sublist ''..'' seg"
proof (induction p)
  case Nil
  then show ?case by simp
next
  case (Cons c cs)
  obtain s ss where sp: "split_path cs = s # ss"
    using split_path_nonempty [of cs] by (cases "split_path cs") auto
  from Cons.prems have "prefix ''..'' (c # cs) \<or> sublist ''..'' cs"
    by (simp add: sublist_Cons_right)
  then show ?case
  proof
    assume "prefix ''..'' (c # cs)"
    then obtain rest where c: "c = CHR ''.''" and cs: "cs = CHR ''.'' # rest"
      by (auto simp: prefix_def)
    obtain s' ss' where sp': "split_path rest = s' # ss'"
      using split_path_nonempty [of rest] by (cases "split_path rest") auto
    have "split_path (c # cs) = (CHR ''.'' # CHR ''.'' # s') # ss'"
      by (simp add: c cs sp' slash_def)
    moreover have "sublist ''..'' (CHR ''.'' # CHR ''.'' # s')"
      by (simp add: sublist_Cons_right)
    ultimately show ?thesis by simp
  next
    assume "sublist ''..'' cs"
    from Cons.IH [OF this] obtain seg where seg: "seg \<in> set (s # ss)" "sublist ''..'' seg"
      using sp by auto
    show ?thesis
    proof (cases "c = slash")
      case True
      with seg sp show ?thesis by auto
    next
      case False
      then have spc: "split_path (c # cs) = (c # s) # ss" by (simp add: sp)
      from seg(1) have "seg = s \<or> seg \<in> set ss" by auto
      then show ?thesis
      proof
        assume "seg = s"
        with seg(2) have "sublist ''..'' (c # s)" by (simp add: sublist_Cons_right)
        then show ?thesis unfolding spc by simp
      next
        assume "seg \<in> set ss"
        with seg(2) show ?thesis unfolding spc by auto
      qed
    qed
  qed
qed

lemma sublist_trans_app: "sublist a b \<Longrightarrow> sublist b c \<Longrightarrow> sublist a (c @ t)"
proof -
  assume "sublist a b" "sublist b c"
  then obtain p q p' q' where "b = p @ a @ q" "c = p' @ b @ q'" by (auto simp: sublist_def)
  then have "c @ t = (p' @ p) @ a @ (q @ q' @ t)" by simp
  then show ?thesis unfolding sublist_def by blast
qed

lemma accepted_name_no_dots:
  assumes "validateFileName n = None" and "safe_name n"
  shows "\<not> str_includes n ''..''"
proof
  assume "str_includes n ''..''"
  then have sub: "sublist ''..'' n" by (simp add: str_includes_def)
  define K where "K = filter (\<lambda>s. s \<noteq> [] \<and> s \<noteq> ''.'') (split_path n)"
  from dots_in_segment [OF sub] obtain seg where seg: "seg \<in> set (split_path n)" "sublist ''..'' seg"
    by blast
  from seg(2) have "seg \<noteq> []" "seg \<noteq> ''.''" by (auto simp: sublist_Cons_right)
  with seg(1) have inK: "seg \<in> set K" by (simp add: K_def)
  then have "sublist seg (join_segments K)" by (rule segment_in_join)
  with seg(2) have "sublist ''..'' (join_segments K @ t)" for t by (rule sublist_trans_app)
  moreover from sub have "n \<noteq> []" by auto
  moreover from inK have "K \<noteq> []" by auto
  ultimately have "sublist ''..'' (path_normalize n)"
    using valid_name_normalize [OF assms(1), folded K_def] by simp
  with assms(2) show False by (simp add: safe_name_def unsafe_path_def Let_def str_includes_def)
qed





section \<open>Path safety of the extractor\<close>

text \<open>
  Claim C3. Whenever an entry of the archive, file or directory, has a normalized path with a
  double-dot segment, or an absolute normalized path, the extraction of the whole archive
  fails, whatever comes before or after the entry (the entries are taken with their names as
  the ZIP library decodes them). The storage state it leaves is the state
  reached after the entries in front of that entry: nothing is created or written for the
  entry itself or for any later one. Such a name fails the path test of the \<^verbatim>\<open>entry\<close> handler,
  and it fails the name check of the ZIP library, which comes first: when all earlier
  entries were consumed, the error is the archive error carrying the library's message about
  that name.
\<close>

theorem traversal_entry_rejected_before_write:
  assumes "yauzl_open env zipPath = Inr z" and "delivered z = pre @ e # post"
    and "has_traversal_segment (path_normalize (fileName e)) \<or> path_isAbsolute (path_normalize (fileName e))"
  shows "(\<exists>err. fst (extractZip env zipPath dir fs) = Inl err)
    \<and> snd (extractZip env zipPath dir fs) = snd (readEntries dir pre None [] False fs)
    \<and> unsafe_path (fileName e)
    \<and> (list_all accepted_entry pre \<longrightarrow>
          (\<exists>msg. validateFileName (fileName e) = Some msg
             \<and> extractZip env zipPath dir fs
                 = (Inl (ZipProcessingError msg), snd (readEntries dir pre None [] False fs))))"
proof -
  have unsafe: "unsafe_path (fileName e)" using assms(3) by (rule traversal_is_unsafe)
  from traversal_name_refused [OF assms(3)] obtain msg
    where msg: "validateFileName (fileName e) = Some msg" by blast
  have ex: "extractZip env zipPath dir fs = readEntries dir (pre @ e # post) (zip_error z) [] False fs"
    using assms(1,2) by (simp add: extractZip_def delivered_def)
  note st = readEntries_invalid_name_entry [OF msg, of dir pre post "zip_error z" "[]" False fs None]
  have named: "fst (readEntries dir (pre @ e # post) (zip_error z) [] False fs) = Inl (ZipProcessingError msg)"
    if "list_all accepted_entry pre"
  proof -
    note v = invalid_name_verdict [OF msg]
    then have "rejected_entry e" by (simp add: rejected_entry_def accepted_entry_def)
    from find_after_accepted [OF that this]
    show ?thesis using v by (rule readEntries_first_rejected)
  qed
  show ?thesis
    unfolding ex using st named unsafe msg by (auto simp: prod_eq_iff)
qed

text \<open>
  The entries \<^verbatim>\<open>../../etc/passwd\<close> and \<^verbatim>\<open>/etc/passwd\<close> and the directory entry \<^verbatim>\<open>../d/\<close>:
  the only file staged is the one in front of the offending entry.
\<close>

theorem traversal_entry_rejected_before_write_witness:
  "fst (extractZip (demo_env Some (archive [index_page, relative_passwd])) demo_zip_path demo_staging demo_fs)
     = Inl (ZipProcessingError ''invalid relative path: ../../etc/passwd'')
   \<and> written (snd (extractZip (demo_env Some (archive [index_page, relative_passwd]))
        demo_zip_path demo_staging demo_fs)) = [''/app/tmp/extract_s1_7/index.html'']
   \<and> extractZip (demo_env Some (archive [absolute_passwd, index_page])) demo_zip_path demo_staging demo_fs
     = (Inl (ZipProcessingError ''absolute path: /etc/passwd''), demo_fs)
   \<and> extractZip (demo_env Some (archive [traversal_directory, index_page])) demo_zip_path demo_staging demo_fs
     = (Inl (ZipProcessingError ''invalid relative path: ../d/''), demo_fs)"
proof -
  have o1: "yauzl_open (demo_env Some (archive [index_page, relative_passwd])) demo_zip_path
              = Inr (archive [index_page, relative_passwd])"
    and o2: "yauzl_open (demo_env Some (archive [absolute_passwd, index_page])) demo_zip_path
              = Inr (archive [absolute_passwd, index_page])"
    and o3: "yauzl_open (demo_env Some (archive [traversal_directory, index_page])) demo_zip_path
              = Inr (archive [traversal_directory, index_page])"
    by (simp_all add: demo_env_def)
  have e1: "delivered (archive [index_page, relative_passwd]) = [index_page] @ relative_passwd # []"
    and e2: "delivered (archive [absolute_passwd, index_page]) = [] @ absolute_passwd # [index_page]"
    and e3: "delivered (archive [traversal_directory, index_page]) = [] @ traversal_directory # [index_page]"
    by code_simp+
  have t1: "has_traversal_segment (path_normalize (fileName relative_passwd))
            \<or> path_isAbsolute (path_normalize (fileName relative_passwd))"
    and t2: "has_traversal_segment (path_normalize (fileName absolute_passwd))
            \<or> path_isAbsolute (path_normalize (fileName absolute_passwd))"
    and t3: "has_traversal_segment (path_normalize (fileName traversal_directory))
            \<or> path_isAbsolute (path_normalize (fileName traversal_directory))"
    by code_simp+
  have a1: "list_all accepted_entry [index_page]" and a2: "list_all accepted_entry []"
    by code_simp+
  have n1: "validateFileName (fileName relative_passwd) = Some ''invalid relative path: ../../etc/passwd''"
    and n2: "validateFileName (fileName absolute_passwd) = Some ''absolute path: /etc/passwd''"
    and n3: "validateFileName (fileName traversal_directory) = Some ''invalid relative path: ../d/''"
    by code_simp+
  have s1: "written (snd (readEntries demo_staging [index_page] None [] False demo_fs))
              = [''/app/tmp/extract_s1_7/index.html'']"
    and s2: "snd (readEntries demo_staging [] None [] False demo_fs) = demo_fs"
    by code_simp+
  from traversal_entry_rejected_before_write [OF o1 e1 t1, of demo_staging demo_fs]
       traversal_entry_rejected_before_write [OF o2 e2 t2, of demo_staging demo_fs]
       traversal_entry_rejected_before_write [OF o3 e3 t3, of demo_staging demo_fs]
       a1 a2 n1 n2 n3 s1 s2
  show ?thesis by simp
qed


section \<open>Where the extraction and the deployment write\<close>





lemma accepted_file_safe: "accepted_entry e \<Longrightarrow> file_entry e \<Longrightarrow> safe_name (fileName e)"
  by (auto simp: accepted_entry_def entry_verdict_def file_entry_def safe_name_def
      split: if_splits option.splits)

lemma extraction_names_safe:
  assumes "fst (readEntries dir es zerr [] h fs) = Inr r"
  shows "list_all safe_name (result_files r)"
proof -
  from readEntries_success [OF assms]
  have acc: "list_all accepted_entry es"
    and r: "result_files r = map fileName (filter file_entry es)" by auto
  from acc show ?thesis unfolding r
    by (induction es) (auto simp: accepted_file_safe)
qed










lemma accepted_file_no_dots:
  "accepted_entry e \<Longrightarrow> file_entry e \<Longrightarrow> \<not> str_includes (fileName e) ''..''"
  by (rule accepted_name_no_dots) (simp_all add: accepted_valid_name accepted_file_safe)

lemma extraction_names_no_dots:
  assumes "fst (readEntries dir es zerr [] h fs) = Inr r"
  shows "list_all (\<lambda>name. \<not> str_includes name ''..'') (result_files r)"
proof -
  from readEntries_success [OF assms]
  have acc: "list_all accepted_entry es"
    and r: "result_files r = map fileName (filter file_entry es)" by auto
  from acc show ?thesis unfolding r
    by (induction es) (auto simp: accepted_file_no_dots)
qed

lemma rejected_entry_fails:
  assumes "e \<in> set es" and "rejected_entry e"
  shows "\<exists>err. fst (readEntries dir es zerr acc h fs) = Inl err"
proof -
  from assms have "\<not> list_all accepted_entry es"
    by (auto simp: list_all_iff rejected_entry_def)
  from find_rejected [OF this] obtain x err
    where "List.find rejected_entry es = Some x" "entry_verdict x = Some err" by blast
  from readEntries_first_rejected [OF this, of dir zerr acc h fs] show ?thesis by blast
qed



section \<open>Destinations of the deployment\<close>




section \<open>Names with two dots in a row\<close>

text \<open>
  Claim C10. The path test of the extractor looks for the two characters \<^verbatim>\<open>..\<close> anywhere in
  the normalized name of a file entry (the name as the ZIP library decodes it), so an archive with such an entry is rejected even when
  the dots are inside a segment, as in \<^verbatim>\<open>notes..backup.html\<close>: when the entries in front of
  it were consumed and the ZIP library accepts the name, the error is the invalid-path error
  naming the entry. A name with a double-dot segment never reaches the test, because the
  library refuses it. Hence, for every archive that is extracted and every ZIP upload that
  succeeds, each deployed name is free of \<^verbatim>\<open>..\<close>, as written in the archive and in its
  normalized form, and the destination of each deployed file has no double-dot segment.
\<close>

theorem dotdot_names_never_deployed:
  assumes "yauzl_open env zipPath = Inr z"
  shows "(e \<in> set (delivered z) \<and> \<not> is_directory_entry e
            \<and> str_includes (path_normalize (fileName e)) ''..'' \<longrightarrow>
          (\<exists>err. fst (extractZip env zipPath dir fs) = Inl err))
       \<and> (delivered z = pre @ e # post \<and> list_all accepted_entry pre \<and> \<not> is_directory_entry e
            \<and> validateFileName (fileName e) = None
            \<and> str_includes (path_normalize (fileName e)) ''..'' \<longrightarrow>
          fst (extractZip env zipPath dir fs) = Inl (InvalidZipPath (fileName e)))
       \<and> (fst (extractZip env zipPath dir fs) = Inr r \<longrightarrow>
            list_all (\<lambda>name. \<not> str_includes name ''..'' \<and> \<not> str_includes (path_normalize name) ''..'')
              (result_files r))
       \<and> (processUpload env (Some f) ''zip'' userId siteId fs = (Inr s, fs') \<and> fpath f = zipPath \<longrightarrow>
            list_all (\<lambda>name. \<not> str_includes name ''..'' \<and> \<not> str_includes (path_normalize name) ''..'')
              (summary_files s))
       \<and> (path_isAbsolute (env_dirname env) \<and> fst (extractZip env zipPath dir fs) = Inr r \<longrightarrow>
            list_all (\<lambda>name. ''..'' \<notin> set (path_segments (path_join [getSiteDir (storage env) userId siteId, name])))
              (result_files r))"
proof -
  have ex: "extractZip env zipPath d fs0 = readEntries d (delivered z) (zip_error z) [] False fs0" for d fs0
    using assms by (simp add: extractZip_def delivered_def)
  have safe: "list_all safe_name (result_files r0)"
    if "fst (extractZip env zipPath d fs0) = Inr r0" for d fs0 r0
    using that extraction_names_safe [of d "delivered z" "zip_error z" False fs0 r0] by (simp add: ex)
  have nodots: "list_all (\<lambda>name. \<not> str_includes name ''..'') (result_files r0)"
    if "fst (extractZip env zipPath d fs0) = Inr r0" for d fs0 r0
    using that extraction_names_no_dots [of d "delivered z" "zip_error z" False fs0 r0] by (simp add: ex)
  have plain: "list_all (\<lambda>name. \<not> str_includes name ''..'' \<and> \<not> str_includes (path_normalize name) ''..'') names"
    if "list_all safe_name names" "list_all (\<lambda>name. \<not> str_includes name ''..'') names" for names
    using that by (auto simp: list_all_iff safe_name_def unsafe_path_def Let_def)
  have c1: "e \<in> set (delivered z) \<and> \<not> is_directory_entry e
            \<and> str_includes (path_normalize (fileName e)) ''..'' \<longrightarrow>
          (\<exists>err. fst (extractZip env zipPath dir fs) = Inl err)"
  proof
    assume a: "e \<in> set (delivered z) \<and> \<not> is_directory_entry e
            \<and> str_includes (path_normalize (fileName e)) ''..''"
    then have "unsafe_path (fileName e)" by (simp add: unsafe_path_def Let_def)
    with a have "rejected_entry e" by (simp add: unsafe_entry_rejected)
    with a rejected_entry_fails [of e "delivered z" dir "zip_error z" "[]" False fs]
    show "\<exists>err. fst (extractZip env zipPath dir fs) = Inl err" by (simp add: ex)
  qed
  have c2: "delivered z = pre @ e # post \<and> list_all accepted_entry pre \<and> \<not> is_directory_entry e
            \<and> validateFileName (fileName e) = None
            \<and> str_includes (path_normalize (fileName e)) ''..'' \<longrightarrow>
          fst (extractZip env zipPath dir fs) = Inl (InvalidZipPath (fileName e))"
  proof
    assume a: "delivered z = pre @ e # post \<and> list_all accepted_entry pre \<and> \<not> is_directory_entry e
            \<and> validateFileName (fileName e) = None
            \<and> str_includes (path_normalize (fileName e)) ''..''"
    then have unsafe: "unsafe_path (fileName e)" by (simp add: unsafe_path_def Let_def)
    from a have isfile: "\<not> is_directory_entry e" and pre: "list_all accepted_entry pre" by simp_all
    from unsafe_verdict [OF isfile unsafe] a
    have v: "entry_verdict e = Some (InvalidZipPath (fileName e))" by simp
    from unsafe_entry_rejected [OF isfile unsafe] have rej: "rejected_entry e" .
    from find_after_accepted [OF pre rej, of post] v
    have "fst (readEntries dir (pre @ e # post) (zip_error z) [] False fs) = Inl (InvalidZipPath (fileName e))"
      by (rule readEntries_first_rejected)
    with a show "fst (extractZip env zipPath dir fs) = Inl (InvalidZipPath (fileName e))"
      by (simp add: ex)
  qed
  have c3: "fst (extractZip env zipPath dir fs) = Inr r \<longrightarrow>
            list_all (\<lambda>name. \<not> str_includes name ''..'' \<and> \<not> str_includes (path_normalize name) ''..'')
              (result_files r)"
    using safe [of dir fs r] nodots [of dir fs r] plain by blast
  have c4: "processUpload env (Some f) ''zip'' userId siteId fs = (Inr s, fs') \<and> fpath f = zipPath \<longrightarrow>
            list_all (\<lambda>name. \<not> str_includes name ''..'' \<and> \<not> str_includes (path_normalize name) ''..'')
              (summary_files s)"
  proof
    assume a: "processUpload env (Some f) ''zip'' userId siteId fs = (Inr s, fs') \<and> fpath f = zipPath"
    then obtain r0 fs1 where
      "extractZip env zipPath (stagingDir env siteId) (fs_mkdir fs (stagingDir env siteId)) = (Inr r0, fs1)"
      "summary_files s = result_files r0"
      using processUpload_zip_success [of env f userId siteId fs s fs'] by auto
    then show "list_all (\<lambda>name. \<not> str_includes name ''..'' \<and> \<not> str_includes (path_normalize name) ''..'')
              (summary_files s)"
      using safe [of "stagingDir env siteId" "fs_mkdir fs (stagingDir env siteId)" r0]
            nodots [of "stagingDir env siteId" "fs_mkdir fs (stagingDir env siteId)" r0] plain by simp
  qed
  have c5: "path_isAbsolute (env_dirname env) \<and> fst (extractZip env zipPath dir fs) = Inr r \<longrightarrow>
            list_all (\<lambda>name. ''..'' \<notin> set (path_segments (path_join [getSiteDir (storage env) userId siteId, name])))
              (result_files r)"
  proof
    assume a: "path_isAbsolute (env_dirname env) \<and> fst (extractZip env zipPath dir fs) = Inr r"
    then obtain q where q: "path_isAbsolute q" "getSiteDir (storage env) userId siteId = path_normalize q"
      using getSiteDir_normal by blast
    from a safe [of dir fs r] have "list_all safe_name (result_files r)" by simp
    then show "list_all (\<lambda>name. ''..'' \<notin> set (path_segments (path_join [getSiteDir (storage env) userId siteId, name])))
              (result_files r)"
      using join_within [OF q(1)] by (auto simp: list_all_iff q(2) within_dir_def)
  qed
  from c1 c2 c3 c4 c5 show ?thesis by blast
qed

text \<open>
  \<^verbatim>\<open>notes..backup.html\<close> has no double-dot segment, is accepted by the library and stops the
  extraction with the invalid-path error; the names of an accepted archive are free of
  \<^verbatim>\<open>..\<close>.
\<close>

theorem dotdot_names_never_deployed_witness:
  "\<not> has_traversal_segment (path_normalize (fileName dotted_backup))
   \<and> fst (extractZip (demo_env Some (archive [index_page, dotted_backup]))
            demo_zip_path demo_staging demo_fs) = Inl (InvalidZipPath ''notes..backup.html'')
   \<and> list_all (\<lambda>name. \<not> str_includes name ''..'' \<and> \<not> str_includes (path_normalize name) ''..'')
       [''index.html'', ''css/a.css'']
   \<and> list_all (\<lambda>name. ''..'' \<notin> set (path_segments (path_join [demo_site, name]))) [''index.html'', ''css/a.css'']
   \<and> fst (processUpload (demo_env Some (archive [index_page, nested_style])) (Some (demo_upload ''site.zip''))
          ''zip'' ''u1'' ''s1'' demo_fs)
     = Inr \<lparr>summary_type = ''zip'', summary_files = [''index.html'', ''css/a.css''],
            summary_size = 17, summary_hasIndexHtml = Some True\<rparr>"
proof -
  have o1: "yauzl_open (demo_env Some (archive [index_page, dotted_backup])) demo_zip_path
              = Inr (archive [index_page, dotted_backup])"
    and o2: "yauzl_open (demo_env Some (archive [index_page, nested_style])) demo_zip_path
              = Inr (archive [index_page, nested_style])"
    by (simp_all add: demo_env_def)
  have h1: "dotted_backup \<in> set (delivered (archive [index_page, dotted_backup]))
            \<and> \<not> is_directory_entry dotted_backup
            \<and> str_includes (path_normalize (fileName dotted_backup)) ''..''"
    by code_simp
  have h1': "delivered (archive [index_page, dotted_backup]) = [index_page] @ dotted_backup # []
            \<and> list_all accepted_entry [index_page]
            \<and> validateFileName (fileName dotted_backup) = None"
    by code_simp
  have n: "\<not> has_traversal_segment (path_normalize (fileName dotted_backup))"
    and nm: "fileName dotted_backup = ''notes..backup.html''"
    by code_simp+
  have h2: "fst (extractZip (demo_env Some (archive [index_page, nested_style])) demo_zip_path demo_staging demo_fs)
          = Inr \<lparr>result_files = [''index.html'', ''css/a.css''], result_hasIndexHtml = True\<rparr>"
    by code_simp
  have up: "fst (processUpload (demo_env Some (archive [index_page, nested_style])) (Some (demo_upload ''site.zip''))
          ''zip'' ''u1'' ''s1'' demo_fs)
     = Inr \<lparr>summary_type = ''zip'', summary_files = [''index.html'', ''css/a.css''],
            summary_size = 17, summary_hasIndexHtml = Some True\<rparr>"
    by code_simp
  then have u: "processUpload (demo_env Some (archive [index_page, nested_style])) (Some (demo_upload ''site.zip''))
          ''zip'' ''u1'' ''s1'' demo_fs
     = (Inr \<lparr>summary_type = ''zip'', summary_files = [''index.html'', ''css/a.css''],
            summary_size = 17, summary_hasIndexHtml = Some True\<rparr>,
        snd (processUpload (demo_env Some (archive [index_page, nested_style])) (Some (demo_upload ''site.zip''))
          ''zip'' ''u1'' ''s1'' demo_fs))
     \<and> fpath (demo_upload ''site.zip'') = demo_zip_path"
    by (simp add: prod_eq_iff demo_upload_def)
  have a: "path_isAbsolute (env_dirname (demo_env Some (archive [index_page, nested_style])))"
    and site: "getSiteDir (storage (demo_env Some (archive [index_page, nested_style]))) ''u1'' ''s1'' = demo_site"
    by code_simp+
  from dotdot_names_never_deployed [OF o1, where e = dotted_backup and dir = demo_staging and fs = demo_fs
         and pre = "[index_page]" and post = "[]"]
       dotdot_names_never_deployed [OF o2, where dir = demo_staging and fs = demo_fs
         and r = "\<lparr>result_files = [''index.html'', ''css/a.css''], result_hasIndexHtml = True\<rparr>"
         and f = "demo_upload ''site.zip''" and userId = "''u1''" and siteId = "''s1''"
         and s = "\<lparr>summary_type = ''zip'', summary_files = [''index.html'', ''css/a.css''],
            summary_size = 17, summary_hasIndexHtml = Some True\<rparr>"
         and fs' = "snd (processUpload (demo_env Some (archive [index_page, nested_style])) (Some (demo_upload ''site.zip''))
          ''zip'' ''u1'' ''s1'' demo_fs)"]
       h1 h1' n nm h2 up u a site
  show ?thesis by simp
qed

section \<open>Cleanup of the temporary inputs\<close>

text \<open>
  Once validation has passed, the \<^verbatim>\<open>finally\<close> blocks run on every exit: afterwards no file
  is left at the path of the uploaded file and, for a ZIP upload, the extraction directory
  does not exist.
\<close>

lemma map_of_filter_key:
  "map_of (filter (\<lambda>entry. fst entry \<noteq> p) xs) k = (if k = p then None else map_of xs k)"
  by (induction xs) auto

lemma read_after_cleanup: "fs_read (cleanupTempFile fs p) p = None"
  by (auto simp: cleanupTempFile_def fs_unlink_def fs_read_def map_of_filter_key split: option.splits)

lemma exists_after_cleanup: "fs_exists (cleanupTempFile fs p) q \<Longrightarrow> fs_exists fs q"
  by (auto simp: cleanupTempFile_def fs_unlink_def fs_read_def fs_exists_def map_of_filter_key
      split: option.splits if_splits)

lemma gone_after_rm_rf: "\<not> fs_exists (fs_rm_rf fs p) p"
proof -
  have "map_of (filter (\<lambda>entry. \<not> path_under p (fst entry)) (files fs)) p = None"
    by (induction "files fs" arbitrary: fs) (auto simp: path_under_def map_of_eq_None_iff)
  then show ?thesis
    by (simp add: fs_exists_def fs_read_def fs_rm_rf_def path_under_def)
qed

lemma cleanup_after_validation:
  assumes "validateFile env (Some f) t = Inr ok"
  shows "fs_read (snd (processUpload env (Some f) t userId siteId fs)) (fpath f) = None
       \<and> \<not> (t = ''zip'' \<and> fs_exists (snd (processUpload env (Some f) t userId siteId fs)) (stagingDir env siteId))"
proof -
  have "fs_read (snd (processUpload env (Some f) t userId siteId fs)) (fpath f) = None"
    using assms by (simp add: processUpload_def Let_def read_after_cleanup)
  moreover have "\<not> fs_exists (snd (processUpload env (Some f) ''zip'' userId siteId fs)) (stagingDir env siteId)"
    if "t = ''zip''"
    using assms that gone_after_rm_rf [of _ "stagingDir env siteId"]
    by (auto simp: processUpload_def processZipUpload_def Let_def dest!: exists_after_cleanup)
  ultimately show ?thesis by blast
qed

text \<open>
  Claim C2 at a validation failure. \<^verbatim>\<open>validateFile\<close> is called in front of the \<^verbatim>\<open>try\<close>
  block whose \<^verbatim>\<open>finally\<close> removes the uploaded file. An upload of \<^verbatim>\<open>site.zip\<close> declared
  as \<^verbatim>\<open>html\<close> fails validation and returns with the storage untouched: the uploaded file
  is still there. The same file named \<^verbatim>\<open>page.html\<close> is removed.
\<close>

theorem validation_failure_keeps_uploaded_file:
  "processUpload (demo_env Some no_entries) (Some (demo_upload ''site.zip'')) ''html'' ''u1'' ''s1'' demo_fs
     = (Inl (InvalidFileType [''.html'', ''.htm''] ''.zip''), demo_fs)
   \<and> fs_read demo_fs (fpath (demo_upload ''site.zip'')) = Some ''raw upload''
   \<and> fs_read (snd (processUpload (demo_env Some no_entries) (Some (demo_upload ''page.html'')) ''html''
                     ''u1'' ''s1'' demo_fs)) (fpath (demo_upload ''page.html'')) = None"
  by code_simp

section \<open>The size in the summary of a ZIP upload\<close>

text \<open>
  Claim C9 at an archive whose index page is changed by the sanitizer. The loop of
  \<^verbatim>\<open>processZipUpload\<close> adds up the sizes of the extracted files as they lie in the extraction
  directory, before sanitizing. For the page \<^verbatim>\<open><script>alert(1)</script>\<close> (25 bytes) the
  summary reports 25 whatever bytes the sanitizer returns, and those bytes are what the site
  directory receives. The single-file path reports the length of the sanitized text.
\<close>

theorem zip_summary_size_counts_staged_bytes:
  "fst (processUpload (demo_env (\<lambda>html. Some cleaned) (archive [script_page])) (Some (demo_upload ''site.zip''))
          ''zip'' ''u1'' ''s1'' demo_fs)
     = Inr \<lparr>summary_type = ''zip'', summary_files = [''index.html''], summary_size = 25,
            summary_hasIndexHtml = Some True\<rparr>
   \<and> files (snd (processUpload (demo_env (\<lambda>html. Some cleaned) (archive [script_page]))
          (Some (demo_upload ''site.zip'')) ''zip'' ''u1'' ''s1'' demo_fs))
     = [(''/app/sites/u1/s1/index.html'', cleaned)]
   \<and> fst (processUpload (demo_env (\<lambda>html. Some cleaned) no_entries) (Some (demo_upload ''page.html''))
          ''html'' ''u1'' ''s1'' demo_fs)
     = Inr \<lparr>summary_type = ''html'', summary_files = [''index.html''], summary_size = length cleaned,
            summary_hasIndexHtml = None\<rparr>"
  by code_simp

end
